theory Spec2Isabelle
  imports Complex_Main "HOL-Library.Log_Nat" "HOL-Library.Multiset"
begin

section \<open>The KOSPI table widget (docs/kospi-widget.js)\<close>

text \<open>
  The widget is one script: it fetches a JSON document, keeps the rows in \<open>allRows\<close>,
  keeps the sort state in \<open>sortKey\<close> and \<open>sortAsc\<close>, reads the filter controls of the
  page on every \<open>render()\<close> and rewrites the table body. The model below follows the
  script function by function. Values of the language are modelled as follows.

  \<^item> A string is the list of its UTF-16 code units (\<open>jsstring\<close>); the Korean literals of
    the script are written as their code units.
  \<^item> A number is \<open>NaN\<close>, an infinity, or a finite binary64 value given by its exact
    rational value (\<open>Fin q\<close>). Arithmetic on finite values rounds to the nearest
    binary64 value, ties to even (\<open>rnd\<close>). The two zeros are identified.
  \<^item> Built-in functions whose result is fixed by locale data or by large tables
    (case mapping, Korean collation, the shortest decimal form of a number) are fields of
    a record \<open>host\<close>; every theorem holds for every host.
\<close>

subsection \<open>Strings\<close>

type_synonym jsstring = "nat list"

definition ascii :: "string \<Rightarrow> jsstring" where
  "ascii s = map of_char s"

text \<open>White space and line terminators of ECMAScript, all in the basic plane.\<close>

definition is_ws :: "nat \<Rightarrow> bool" where
  "is_ws c = (c \<in> {9, 10, 11, 12, 13, 32, 160, 5760, 8232, 8233, 8239, 8287, 12288, 65279}
              \<or> (8192 \<le> c \<and> c \<le> 8202))"

definition trim_start :: "jsstring \<Rightarrow> jsstring" where
  "trim_start s = dropWhile is_ws s"

definition trim :: "jsstring \<Rightarrow> jsstring" where
  "trim s = rev (dropWhile is_ws (rev (dropWhile is_ws s)))"

definition starts_with :: "jsstring \<Rightarrow> jsstring \<Rightarrow> bool" where
  "starts_with p s = (take (length p) s = p)"

text \<open>\<open>s.indexOf(p)\<close>: the least position at which \<open>p\<close> occurs in \<open>s\<close>, or \<open>-1\<close>.\<close>

fun indexOf_from :: "nat \<Rightarrow> jsstring \<Rightarrow> jsstring \<Rightarrow> int" where
  "indexOf_from k [] p = (if p = [] then int k else - 1)"
| "indexOf_from k (c # s) p =
     (if starts_with p (c # s) then int k else indexOf_from (Suc k) s p)"

definition indexOf :: "jsstring \<Rightarrow> jsstring \<Rightarrow> int" where
  "indexOf s p = indexOf_from 0 s p"

text \<open>\<open>s.slice(a, b)\<close> for \<open>0 \<le> a \<le> b\<close>; both ends are clamped to the length.\<close>

definition slice :: "jsstring \<Rightarrow> nat \<Rightarrow> nat \<Rightarrow> jsstring" where
  "slice s a b = take (b - a) (drop a s)"

text \<open>The order \<open><\<close> of the language on strings: lexicographic on code units.\<close>

fun str_lt :: "jsstring \<Rightarrow> jsstring \<Rightarrow> bool" where
  "str_lt [] [] = False"
| "str_lt [] (y # ys) = True"
| "str_lt (x # xs) [] = False"
| "str_lt (x # xs) (y # ys) = (x < y \<or> (x = y \<and> str_lt xs ys))"

subsection \<open>Numbers\<close>

datatype jsnum = NaN | PInf | NInf | Fin rat

text \<open>For \<open>a > 0\<close>, \<open>ilog2 a\<close> is the exponent \<open>e\<close> with \<open>2^e \<le> a < 2^(e+1)\<close>.\<close>

definition ilog2 :: "rat \<Rightarrow> int" where
  "ilog2 a = (let (p, q) = quotient_of a;
                  e0 = int (floorlog 2 (nat p)) - int (floorlog 2 (nat q))
              in if 2 powi e0 \<le> a then e0 else e0 - 1)"

definition round_half_even :: "rat \<Rightarrow> int" where
  "round_half_even x =
     (let f = \<lfloor>x\<rfloor>; r = x - of_int f
      in if r < 1 / 2 then f else if 1 / 2 < r then f + 1 else if even f then f else f + 1)"

text \<open>
  Rounding of an exact value to binary64: 53 significant bits, least exponent \<open>-1022\<close>
  (below it the spacing stays \<open>2^-1074\<close>), overflow to an infinity from \<open>2^1024\<close> on.
\<close>

definition rnd :: "rat \<Rightarrow> jsnum" where
  "rnd x =
     (if x = 0 then Fin 0
      else let a = \<bar>x\<bar>; e = max (ilog2 a) (- 1022); u = 2 powi (e - 52);
               m = round_half_even (a / u)
           in if 1023 < e \<or> (e = 1023 \<and> 2 ^ 53 \<le> m) then (if x < 0 then NInf else PInf)
              else Fin (sgn x * of_int m * u))"

definition is_double :: "rat \<Rightarrow> bool" where
  "is_double q = (rnd q = Fin q)"


fun isNaN :: "jsnum \<Rightarrow> bool" where
  "isNaN NaN = True"
| "isNaN _ = False"

text \<open>\<open>a < b\<close>; every comparison with \<open>NaN\<close> is false.\<close>

fun js_lt :: "jsnum \<Rightarrow> jsnum \<Rightarrow> bool" where
  "js_lt NaN _ = False"
| "js_lt _ NaN = False"
| "js_lt PInf _ = False"
| "js_lt NInf NInf = False"
| "js_lt NInf _ = True"
| "js_lt (Fin a) PInf = True"
| "js_lt (Fin a) NInf = False"
| "js_lt (Fin a) (Fin b) = (a < b)"

definition js_gt :: "jsnum \<Rightarrow> jsnum \<Rightarrow> bool" where
  "js_gt a b = js_lt b a"

definition js_ge :: "jsnum \<Rightarrow> jsnum \<Rightarrow> bool" where
  "js_ge a b = (\<not> isNaN a \<and> \<not> isNaN b \<and> \<not> js_lt a b)"

definition js_le :: "jsnum \<Rightarrow> jsnum \<Rightarrow> bool" where
  "js_le a b = (\<not> isNaN a \<and> \<not> isNaN b \<and> \<not> js_lt b a)"

fun js_neg :: "jsnum \<Rightarrow> jsnum" where
  "js_neg NaN = NaN"
| "js_neg PInf = NInf"
| "js_neg NInf = PInf"
| "js_neg (Fin a) = Fin (- a)"

fun js_add :: "jsnum \<Rightarrow> jsnum \<Rightarrow> jsnum" where
  "js_add NaN _ = NaN"
| "js_add _ NaN = NaN"
| "js_add PInf NInf = NaN"
| "js_add NInf PInf = NaN"
| "js_add PInf _ = PInf"
| "js_add NInf _ = NInf"
| "js_add (Fin a) PInf = PInf"
| "js_add (Fin a) NInf = NInf"
| "js_add (Fin a) (Fin b) = rnd (a + b)"

definition js_sub :: "jsnum \<Rightarrow> jsnum \<Rightarrow> jsnum" where
  "js_sub a b = js_add a (js_neg b)"

text \<open>The sign of a number that is not \<open>NaN\<close>: \<open>-1\<close>, \<open>0\<close> or \<open>1\<close>.\<close>

fun sign_of :: "jsnum \<Rightarrow> int" where
  "sign_of NaN = 0"
| "sign_of PInf = 1"
| "sign_of NInf = - 1"
| "sign_of (Fin a) = (if a < 0 then - 1 else if a = 0 then 0 else 1)"

fun js_mul :: "jsnum \<Rightarrow> jsnum \<Rightarrow> jsnum" where
  "js_mul NaN _ = NaN"
| "js_mul _ NaN = NaN"
| "js_mul (Fin a) (Fin b) = rnd (a * b)"
| "js_mul a b =
     (if sign_of a * sign_of b = 0 then NaN
      else if 0 < sign_of a * sign_of b then PInf else NInf)"

fun js_div :: "jsnum \<Rightarrow> jsnum \<Rightarrow> jsnum" where
  "js_div NaN _ = NaN"
| "js_div _ NaN = NaN"
| "js_div (Fin a) (Fin b) =
     (if b = 0 then (if a = 0 then NaN else if 0 < a then PInf else NInf)
      else rnd (a / b))"
| "js_div (Fin a) _ = Fin 0"
| "js_div a (Fin b) = (if 0 < sign_of a * (if b < 0 then - 1 else 1) then PInf else NInf)"
| "js_div _ _ = NaN"


subsection \<open>The built-in functions that depend on the engine\<close>

text \<open>
  \<open>lowerCaseMapping\<close> is the case mapping of Unicode on a string that is not empty;
  \<open>localeCompare_ko\<close> is
  \<open>a.localeCompare(b, "ko")\<close>, negative, zero or positive; \<open>numberToString\<close> is the
  decimal form of a finite number that is not an integer of at most \<open>2^53\<close> in absolute
  value; \<open>numberToLocaleString\<close> is \<open>toLocaleString()\<close> on such a number and on the
  non-finite ones; \<open>stringToNumber\<close> converts a string operand of an arithmetic
  operator; \<open>typeErrorMessage\<close> is the message of the \<open>TypeError\<close> raised by reading a
  property of \<open>undefined\<close> or \<open>null\<close>.
\<close>

record host =
  lowerCaseMapping :: "jsstring \<Rightarrow> jsstring"
  localeCompare_ko :: "jsstring \<Rightarrow> jsstring \<Rightarrow> int"
  numberToString :: "rat \<Rightarrow> jsstring"
  numberToLocaleString :: "jsnum \<Rightarrow> jsstring"
  stringToNumber :: "jsstring \<Rightarrow> jsnum"
  typeErrorMessage :: jsstring

text \<open>\<open>s.toLowerCase()\<close>; the empty string has nothing to map.\<close>

definition toLowerCase :: "host \<Rightarrow> jsstring \<Rightarrow> jsstring" where
  "toLowerCase h s = (if s = [] then [] else lowerCaseMapping h s)"

datatype exn = Exn jsstring

fun message :: "exn \<Rightarrow> jsstring" where
  "message (Exn m) = m"

subsection \<open>Numbers as text\<close>

fun digits :: "nat \<Rightarrow> jsstring" where
  "digits n = (if n < 10 then [48 + n] else digits (n div 10) @ [48 + n mod 10])"

declare digits.simps [simp del]

definition safe_int :: "rat \<Rightarrow> bool" where
  "safe_int q = (of_int \<lfloor>q\<rfloor> = q \<and> \<bar>q\<bar> \<le> 2 ^ 53)"

definition minus_sign :: "rat \<Rightarrow> jsstring" where
  "minus_sign q = (if q < 0 then [45] else [])"

text \<open>\<open>String(x)\<close> for a number: the decimal digits for an integer up to \<open>2^53\<close>.\<close>

definition number_toString :: "host \<Rightarrow> jsnum \<Rightarrow> jsstring" where
  "number_toString h x =
     (case x of
        NaN \<Rightarrow> ascii ''NaN''
      | PInf \<Rightarrow> ascii ''Infinity''
      | NInf \<Rightarrow> ascii ''-Infinity''
      | Fin q \<Rightarrow> if safe_int q then minus_sign q @ digits (nat \<lfloor>\<bar>q\<bar>\<rfloor>)
                 else numberToString h q)"

text \<open>
  \<open>x.toFixed(f)\<close> for \<open>0 \<le> f \<le> 100\<close> (the script passes 1 and 2): the integer \<open>n\<close> for
  which \<open>n / 10^f\<close> is nearest to the exact value of \<open>x\<close>, the larger one of two; values
  from \<open>10^21\<close> on are written as \<open>String(x)\<close>.
\<close>

definition toFixed :: "host \<Rightarrow> nat \<Rightarrow> jsnum \<Rightarrow> jsstring" where
  "toFixed h f x =
     (case x of
        Fin q \<Rightarrow>
          (let s = minus_sign q; a = \<bar>q\<bar>
           in if 10 ^ 21 \<le> a then s @ number_toString h (Fin a)
              else let n = nat \<lfloor>a * 10 ^ f + 1 / 2\<rfloor>; m = digits n
                   in if f = 0 then s @ m
                      else let m' = (if length m \<le> f then replicate (f + 1 - length m) 48 @ m
                                     else m);
                               k = length m'
                           in s @ take (k - f) m' @ [46] @ drop (k - f) m')
      | _ \<Rightarrow> number_toString h x)"

text \<open>Digits in groups of three from the right, separated by commas.\<close>

function group3 :: "jsstring \<Rightarrow> jsstring" where
  "group3 ds =
     (if length ds \<le> 3 then ds
      else group3 (take (length ds - 3) ds) @ 44 # drop (length ds - 3) ds)"
  by pat_completeness auto
termination
  by (relation "measure length") auto

declare group3.simps [simp del]

text \<open>
  \<open>x.toLocaleString()\<close> in the default locale, taken to group by three with commas as the
  Korean and English locales do: an integer up to \<open>2^53\<close> is its grouped digits.
\<close>

definition number_toLocaleString :: "host \<Rightarrow> jsnum \<Rightarrow> jsstring" where
  "number_toLocaleString h x =
     (case x of
        Fin q \<Rightarrow> if safe_int q then minus_sign q @ group3 (digits (nat \<lfloor>\<bar>q\<bar>\<rfloor>))
                 else numberToLocaleString h x
      | _ \<Rightarrow> numberToLocaleString h x)"

subsection \<open>\<open>parseFloat\<close>\<close>

definition is_digit :: "nat \<Rightarrow> bool" where
  "is_digit c = (48 \<le> c \<and> c \<le> 57)"

definition digits_value :: "jsstring \<Rightarrow> nat" where
  "digits_value ds = foldl (\<lambda>a c. 10 * a + (c - 48)) 0 ds"

text \<open>The exponent part \<open>e\<close>, \<open>e+\<close> or \<open>e-\<close> with digits; none counts as exponent 0.\<close>

definition exponent_part :: "jsstring \<Rightarrow> int" where
  "exponent_part s =
     (case s of
        [] \<Rightarrow> 0
      | c # t \<Rightarrow>
          if c = 101 \<or> c = 69 then
            (case t of
               [] \<Rightarrow> 0
             | d # u \<Rightarrow>
                 if d = 43 then int (digits_value (takeWhile is_digit u))
                 else if d = 45 then - int (digits_value (takeWhile is_digit u))
                 else int (digits_value (takeWhile is_digit t)))
          else 0)"

text \<open>
  The longest prefix that is \<open>Infinity\<close>, digits with an optional fraction, or a
  fraction alone, each with an optional exponent; without one the result is \<open>NaN\<close>.
\<close>

definition parse_unsigned :: "jsstring \<Rightarrow> jsnum" where
  "parse_unsigned s =
     (if starts_with (ascii ''Infinity'') s then PInf
      else let ip = takeWhile is_digit s; r1 = dropWhile is_digit s;
               fp = (case r1 of [] \<Rightarrow> [] | c # t \<Rightarrow> if c = 46 then takeWhile is_digit t else []);
               r2 = (case r1 of [] \<Rightarrow> [] | c # t \<Rightarrow> if c = 46 then dropWhile is_digit t else r1)
           in if ip = [] \<and> fp = [] then NaN
              else rnd (of_nat (digits_value (ip @ fp))
                        * 10 powi (exponent_part r2 - int (length fp))))"

definition parseFloat :: "jsstring \<Rightarrow> jsnum" where
  "parseFloat s =
     (case trim_start s of
        [] \<Rightarrow> NaN
      | c # t \<Rightarrow>
          if c = 43 then parse_unsigned t
          else if c = 45 then js_neg (parse_unsigned t)
          else parse_unsigned (c # t))"


subsection \<open>Rows and columns\<close>

text \<open>
  A row of the data set. The sector may be missing or \<open>null\<close>, and so may EPS and BPS;
  the other fields are always there, with the type the data set gives them.
\<close>

datatype 'a field = Missing | Null | Val 'a

record row =
  r_ticker :: jsstring
  r_name :: jsstring
  r_sector :: "jsstring field"
  r_cap :: jsnum
  r_per :: jsnum
  r_pbr :: jsnum
  r_eps :: "jsnum field"
  r_bps :: "jsnum field"

datatype jsval = Undefined | JNull | Num jsnum | Str jsstring

definition key_rank :: jsstring where "key_rank = [35]"
definition key_ticker :: jsstring where "key_ticker = [54000, 52964]"
definition key_name :: jsstring where "key_name = [51333, 47785, 47749]"
definition key_sector :: jsstring where "key_sector = [49465, 53552]"
definition key_cap :: jsstring where "key_cap = [49884, 44032, 52509, 50529, 40, 50613, 41]"
definition key_per :: jsstring where "key_per = [80, 69, 82]"
definition key_pbr :: jsstring where "key_pbr = [80, 66, 82]"
definition key_eps :: jsstring where "key_eps = [69, 80, 83]"
definition key_bps :: jsstring where "key_bps = [66, 80, 83]"

fun field_val :: "('a \<Rightarrow> jsval) \<Rightarrow> 'a field \<Rightarrow> jsval" where
  "field_val f Missing = Undefined"
| "field_val f Null = JNull"
| "field_val f (Val x) = f x"

text \<open>\<open>r[k]\<close>: the property of the row under the key, \<open>undefined\<close> when there is none.\<close>

definition get :: "row \<Rightarrow> jsstring \<Rightarrow> jsval" where
  "get r k =
     (if k = key_ticker then Str (r_ticker r)
      else if k = key_name then Str (r_name r)
      else if k = key_sector then field_val Str (r_sector r)
      else if k = key_cap then Num (r_cap r)
      else if k = key_per then Num (r_per r)
      else if k = key_pbr then Num (r_pbr r)
      else if k = key_eps then field_val Num (r_eps r)
      else if k = key_bps then field_val Num (r_bps r)
      else Undefined)"

datatype alignment = Left | Right

record col =
  key :: jsstring
  label :: jsstring
  align :: alignment
  sortable :: bool

definition COLS :: "col list" where
  "COLS =
     [\<lparr>key = key_rank, label = [35], align = Right, sortable = False\<rparr>,
      \<lparr>key = key_ticker, label = [54000, 52964], align = Left, sortable = True\<rparr>,
      \<lparr>key = key_name, label = [51333, 47785, 47749], align = Left, sortable = True\<rparr>,
      \<lparr>key = key_sector, label = [49465, 53552], align = Left, sortable = True\<rparr>,
      \<lparr>key = key_cap, label = [49884, 44032, 52509, 50529], align = Right, sortable = True\<rparr>,
      \<lparr>key = key_per, label = [80, 69, 82], align = Right, sortable = True\<rparr>,
      \<lparr>key = key_pbr, label = [80, 66, 82], align = Right, sortable = True\<rparr>,
      \<lparr>key = key_eps, label = [69, 80, 83], align = Right, sortable = True\<rparr>,
      \<lparr>key = key_bps, label = [66, 80, 83], align = Right, sortable = True\<rparr>]"

subsection \<open>The page\<close>

text \<open>
  A header cell: whether it has the classes \<open>kw-left\<close> and \<open>kw-sorted\<close>, its label, the
  text of its \<open>kw-arrow\<close> span when it has one, and the column of its click listener when
  one is registered. A body row holds the text of its cells and the tier class of the
  PER cell.
\<close>

record th =
  th_left :: bool
  th_sorted :: bool
  th_label :: jsstring
  th_arrow :: "jsstring option"
  th_listener :: "col option"

record tr =
  td_rank :: jsstring
  td_ticker :: jsstring
  td_name :: jsstring
  td_sector :: jsstring
  td_cap :: jsstring
  td_per_class :: jsstring
  td_per :: jsstring
  td_pbr :: jsstring
  td_eps :: jsstring
  td_bps :: jsstring

text \<open>
  The variables of the script (\<open>allRows\<close>, \<open>sortKey\<close>, \<open>sortAsc\<close>), the controls and
  regions of the page it reads and writes, the number of requests sent so far, and whether
  the request of \<open>init\<close> is still under way.
\<close>

record state =
  allRows :: "row list"
  sortKey :: jsstring
  sortAsc :: bool
  kw_sector :: jsstring
  kw_search :: jsstring
  kw_per_min :: jsstring
  kw_per_max :: jsstring
  kw_pbr_min :: jsstring
  kw_pbr_max :: jsstring
  kw_cap_min :: jsstring
  kw_sector_options :: "jsstring list"
  kw_date :: jsstring
  kw_status_display :: jsstring
  kw_status_class :: jsstring
  kw_status_text :: jsstring
  kw_table_wrap_display :: jsstring
  kw_thead :: "th list"
  kw_count :: jsstring
  kw_tbody :: "tr list"
  fetches :: nat
  pending :: bool

subsection \<open>Filtering (lines 77 to 94)\<close>

definition keep ::
  "host \<Rightarrow> jsstring \<Rightarrow> jsstring \<Rightarrow> jsnum \<Rightarrow> jsnum \<Rightarrow> jsnum \<Rightarrow> jsnum \<Rightarrow> jsnum \<Rightarrow> row \<Rightarrow> bool"
where
  "keep h sector search perMin perMax pbrMin pbrMax capMin r =
     (if sector \<noteq> [] \<and> r_sector r \<noteq> Val sector then False
      else if search \<noteq> [] \<and> indexOf (toLowerCase h (r_name r)) search = - 1 then False
      else if \<not> isNaN perMin \<and> js_lt (r_per r) perMin then False
      else if \<not> isNaN perMax \<and> js_gt (r_per r) perMax then False
      else if \<not> isNaN pbrMin \<and> js_lt (r_pbr r) pbrMin then False
      else if \<not> isNaN pbrMax \<and> js_gt (r_pbr r) pbrMax then False
      else if \<not> isNaN capMin \<and> js_lt (r_cap r) capMin then False
      else True)"

definition filtered :: "host \<Rightarrow> state \<Rightarrow> row list" where
  "filtered h st =
     (let sector = kw_sector st;
          search = toLowerCase h (trim (kw_search st));
          perMin = parseFloat (kw_per_min st);
          perMax = parseFloat (kw_per_max st);
          pbrMin = parseFloat (kw_pbr_min st);
          pbrMax = parseFloat (kw_pbr_max st);
          capMin = js_mul (parseFloat (kw_cap_min st)) (Fin 10000)
      in filter (keep h sector search perMin perMax pbrMin pbrMax capMin) (allRows st))"

subsection \<open>Sorting (lines 96 to 104)\<close>

fun toNumber :: "host \<Rightarrow> jsval \<Rightarrow> jsnum" where
  "toNumber h Undefined = NaN"
| "toNumber h JNull = Fin 0"
| "toNumber h (Num x) = x"
| "toNumber h (Str s) = stringToNumber h s"

fun toString :: "host \<Rightarrow> jsval \<Rightarrow> jsstring" where
  "toString h Undefined = ascii ''undefined''"
| "toString h JNull = ascii ''null''"
| "toString h (Num x) = number_toString h x"
| "toString h (Str s) = s"

text \<open>The comparison function handed to \<open>sort\<close>.\<close>

definition compare_rows :: "host \<Rightarrow> jsstring \<Rightarrow> bool \<Rightarrow> row \<Rightarrow> row \<Rightarrow> jsnum" where
  "compare_rows h k asc a b =
     (let av = get a k; bv = get b k
      in case av of
           Num x \<Rightarrow> if asc then js_sub x (toNumber h bv) else js_sub (toNumber h bv) x
         | _ \<Rightarrow> Fin (of_int (if asc then localeCompare_ko h (toString h av) (toString h bv)
                                else localeCompare_ko h (toString h bv) (toString h av))))"

text \<open>
  \<open>Array.prototype.sort\<close> reads the result of the comparison function as a number and
  takes \<open>NaN\<close> for \<open>+0\<close>. The language requires the sort to be stable and, when the
  comparison function is consistent, to return the elements in its order; this is then a
  single sequence, and the insertion sort below returns it. For an inconsistent comparison
  function the order is left to the engine.
\<close>

definition sortCompare :: "('a \<Rightarrow> 'a \<Rightarrow> jsnum) \<Rightarrow> 'a \<Rightarrow> 'a \<Rightarrow> jsnum" where
  "sortCompare c x y = (let v = c x y in if isNaN v then Fin 0 else v)"

fun insert_sorted :: "('a \<Rightarrow> 'a \<Rightarrow> jsnum) \<Rightarrow> 'a \<Rightarrow> 'a list \<Rightarrow> 'a list" where
  "insert_sorted c x [] = [x]"
| "insert_sorted c x (y # ys) =
     (if js_lt (Fin 0) (sortCompare c x y) then y # insert_sorted c x ys else x # y # ys)"

definition js_sort :: "('a \<Rightarrow> 'a \<Rightarrow> jsnum) \<Rightarrow> 'a list \<Rightarrow> 'a list" where
  "js_sort c xs = foldr (insert_sorted c) xs []"

text \<open>\<open>sort()\<close> without a comparison function orders strings by \<open><\<close>.\<close>

definition default_compare :: "jsstring \<Rightarrow> jsstring \<Rightarrow> jsnum" where
  "default_compare x y = (if str_lt x y then Fin (- 1) else if str_lt y x then Fin 1 else Fin 0)"

definition sort_rows :: "host \<Rightarrow> jsstring \<Rightarrow> bool \<Rightarrow> row list \<Rightarrow> row list" where
  "sort_rows h k asc rows =
     (if k \<noteq> [] \<and> k \<noteq> key_rank then js_sort (compare_rows h k asc) rows else rows)"

definition shown_rows :: "host \<Rightarrow> state \<Rightarrow> row list" where
  "shown_rows h st = sort_rows h (sortKey st) (sortAsc st) (filtered h st)"

subsection \<open>The header cells (lines 106 to 112)\<close>

definition arrow_text :: "jsstring \<Rightarrow> bool \<Rightarrow> col \<Rightarrow> jsstring" where
  "arrow_text k asc c =
     (if key c = k then (if asc then [32, 9650] else [32, 9660]) else [32, 9650, 9660])"

text \<open>
  The \<open>i\<close>-th cell is matched with \<open>COLS[i]\<close>; a cell beyond the last column finds
  \<open>undefined\<close> there, and reading its \<open>sortable\<close> raises a \<open>TypeError\<close> that leaves the
  remaining cells as they are.
\<close>

fun reflow :: "host \<Rightarrow> jsstring \<Rightarrow> bool \<Rightarrow> th list \<Rightarrow> col list \<Rightarrow> th list \<times> exn option" where
  "reflow h k asc [] cs = ([], None)"
| "reflow h k asc (t # ts) [] = (t # ts, Some (Exn (typeErrorMessage h)))"
| "reflow h k asc (t # ts) (c # cs) =
     (let t' = (if sortable c
                then t\<lparr>th_sorted := (key c = k),
                       th_arrow := map_option (\<lambda>_. arrow_text k asc c) (th_arrow t)\<rparr>
                else t);
          (ts', ex) = reflow h k asc ts cs
      in (t' # ts', ex))"

subsection \<open>The body rows (lines 116 to 137)\<close>

definition capStr :: "host \<Rightarrow> jsnum \<Rightarrow> jsstring" where
  "capStr h cap =
     (if js_ge cap (Fin 10000) then toFixed h 1 (js_div cap (Fin 10000)) @ [51312]
      else number_toLocaleString h cap @ [50613])"

definition perCls :: "jsnum \<Rightarrow> jsstring" where
  "perCls p =
     (if js_lt p (Fin 10) then ascii ''per-low''
      else if js_lt p (Fin 25) then ascii ''per-mid'' else ascii ''per-high'')"

fun number_isFinite :: "jsval \<Rightarrow> bool" where
  "number_isFinite (Num (Fin q)) = True"
| "number_isFinite _ = False"

text \<open>
  The method call \<open>v.toLocaleString()\<close> on a value read from a row: on \<open>undefined\<close> and
  \<open>null\<close> it raises a \<open>TypeError\<close>; a string returns itself.
\<close>

fun call_toLocaleString :: "host \<Rightarrow> jsval \<Rightarrow> exn + jsstring" where
  "call_toLocaleString h Undefined = Inl (Exn (typeErrorMessage h))"
| "call_toLocaleString h JNull = Inl (Exn (typeErrorMessage h))"
| "call_toLocaleString h (Num x) = Inr (number_toLocaleString h x)"
| "call_toLocaleString h (Str s) = Inr s"

definition epsStr :: "host \<Rightarrow> row \<Rightarrow> exn + jsstring" where
  "epsStr h r =
     (if number_isFinite (get r key_eps) then call_toLocaleString h (get r key_eps)
      else Inr [45])"

definition bpsStr :: "host \<Rightarrow> row \<Rightarrow> exn + jsstring" where
  "bpsStr h r =
     (if number_isFinite (get r key_bps) then call_toLocaleString h (get r key_bps)
      else Inr [45])"

text \<open>The row with index \<open>i\<close>; its rank is \<open>i + 1\<close>.\<close>

definition render_row :: "host \<Rightarrow> nat \<Rightarrow> row \<Rightarrow> exn + tr" where
  "render_row h i r =
     (case epsStr h r of
        Inl e \<Rightarrow> Inl e
      | Inr es \<Rightarrow>
          (case bpsStr h r of
             Inl e \<Rightarrow> Inl e
           | Inr bs \<Rightarrow>
               Inr \<lparr>td_rank = digits (i + 1),
                    td_ticker = r_ticker r,
                    td_name = r_name r,
                    td_sector = toString h (get r key_sector),
                    td_cap = capStr h (r_cap r),
                    td_per_class = perCls (r_per r),
                    td_per = toFixed h 2 (r_per r),
                    td_pbr = toFixed h 2 (r_pbr r),
                    td_eps = es,
                    td_bps = bs\<rparr>))"

text \<open>The loop over the rows; an exception ends it and leaves the rows added so far.\<close>

fun render_rows :: "host \<Rightarrow> nat \<Rightarrow> row list \<Rightarrow> tr list \<times> exn option" where
  "render_rows h i [] = ([], None)"
| "render_rows h i (r # rs) =
     (case render_row h i r of
        Inl e \<Rightarrow> ([], Some e)
      | Inr t \<Rightarrow> (let (ts, ex) = render_rows h (Suc i) rs in (t # ts, ex)))"

subsection \<open>\<open>render\<close>\<close>

definition count_suffix :: jsstring where
  "count_suffix = [44060, 32, 51333, 47785]"

definition render :: "host \<Rightarrow> state \<Rightarrow> state \<times> exn option" where
  "render h st =
     (let rows = shown_rows h st;
          (ths, ex) = reflow h (sortKey st) (sortAsc st) (kw_thead st) COLS
      in case ex of
           Some e \<Rightarrow> (st\<lparr>kw_thead := ths\<rparr>, Some e)
         | None \<Rightarrow>
             (let (trs, ex') = render_rows h 0 rows
              in (st\<lparr>kw_thead := ths, kw_count := digits (length rows) @ count_suffix,
                     kw_tbody := trs\<rparr>, ex')))"

subsection \<open>\<open>buildHeader\<close>\<close>

definition make_th :: "jsstring \<Rightarrow> col \<Rightarrow> th" where
  "make_th k c =
     \<lparr>th_left = (align c = Left),
      th_sorted = (key c = k),
      th_label = label c,
      th_arrow = (if sortable c then Some [] else None),
      th_listener = (if sortable c then Some c else None)\<rparr>"

definition buildHeader :: "state \<Rightarrow> state" where
  "buildHeader st = st\<lparr>kw_thead := kw_thead st @ map (make_th (sortKey st)) COLS\<rparr>"

text \<open>The click listener of the header cell of column \<open>c\<close> (lines 59 to 67).\<close>

definition header_click :: "host \<Rightarrow> col \<Rightarrow> state \<Rightarrow> state \<times> exn option" where
  "header_click h c st =
     render h (if sortKey st = key c then st\<lparr>sortAsc := \<not> sortAsc st\<rparr>
               else st\<lparr>sortKey := key c, sortAsc := (key c \<noteq> key_cap)\<rparr>)"

subsection \<open>\<open>init\<close>\<close>

text \<open>
  What the request of \<open>init\<close> comes back with: the promise of \<open>fetch\<close> rejected with a
  message, or a response with its status and its body, which either fails to parse as
  JSON (with the message of the \<open>SyntaxError\<close>) or is the document. A response is
  \<open>ok\<close> when its status is between 200 and 299.
\<close>

record fund =
  date :: jsstring
  data :: "row list"

datatype body = Malformed jsstring | Parsed fund

datatype outcome = Rejected jsstring | Response nat body

definition response_ok :: "nat \<Rightarrow> bool" where
  "response_ok status = (200 \<le> status \<and> status \<le> 299)"

definition error_prefix :: jsstring where
  "error_prefix = [45936, 51060, 53552, 47484, 32, 48520, 47084, 50724, 51648, 32,
                   47803, 54664, 49845, 45768, 45796, 46, 32, 40]"

definition date_prefix :: jsstring where
  "date_prefix = [44592, 51456, 51068, 58, 32]"

text \<open>The \<open>catch\<close> clause (lines 45 to 49).\<close>

definition show_error :: "state \<Rightarrow> exn \<Rightarrow> state" where
  "show_error st e =
     st\<lparr>kw_status_class := ascii ''kw-error'',
        kw_status_text := error_prefix @ message e @ [41]\<rparr>"

text \<open>The values of a \<open>Set\<close> built from a list: each one once, in order of first occurrence.\<close>

definition set_values :: "'a list \<Rightarrow> 'a list" where
  "set_values xs = rev (remdups (rev xs))"

fun truthy_sector :: "jsstring field \<Rightarrow> bool" where
  "truthy_sector (Val s) = (s \<noteq> [])"
| "truthy_sector _ = False"

fun sector_text :: "jsstring field \<Rightarrow> jsstring" where
  "sector_text (Val s) = s"
| "sector_text _ = []"

definition sectors :: "row list \<Rightarrow> jsstring list" where
  "sectors rows =
     js_sort default_compare
       (set_values (map sector_text (filter truthy_sector (map r_sector rows))))"

text \<open>\<open>init\<close> from the point where its request has come back.\<close>

definition init :: "host \<Rightarrow> state \<Rightarrow> outcome \<Rightarrow> state" where
  "init h st out =
     (case out of
        Rejected m \<Rightarrow> show_error st (Exn m)
      | Response status b \<Rightarrow>
          if \<not> response_ok status
          then show_error st (Exn (ascii ''HTTP error: '' @ digits status))
          else (case b of
                  Malformed m \<Rightarrow> show_error st (Exn m)
                | Parsed f \<Rightarrow>
                    (let st1 = st\<lparr>allRows := data f\<rparr>;
                         d = date f;
                         st2 = st1\<lparr>kw_date := date_prefix @ slice d 0 4 @ [45] @ slice d 4 6
                                               @ [45] @ slice d 6 8\<rparr>;
                         st3 = st2\<lparr>kw_sector_options :=
                                     kw_sector_options st2 @ sectors (allRows st2)\<rparr>;
                         st4 = buildHeader st3;
                         st5 = st4\<lparr>kw_status_display := ascii ''none''\<rparr>;
                         st6 = st5\<lparr>kw_table_wrap_display := []\<rparr>;
                         (st7, ex) = render h st6
                     in case ex of None \<Rightarrow> st7 | Some e \<Rightarrow> show_error st7 e)))"

subsection \<open>Events\<close>

datatype control = Sector | Search | PerMin | PerMax | PbrMin | PbrMax | CapMin

fun set_control :: "control \<Rightarrow> jsstring \<Rightarrow> state \<Rightarrow> state" where
  "set_control Sector v st = st\<lparr>kw_sector := v\<rparr>"
| "set_control Search v st = st\<lparr>kw_search := v\<rparr>"
| "set_control PerMin v st = st\<lparr>kw_per_min := v\<rparr>"
| "set_control PerMax v st = st\<lparr>kw_per_max := v\<rparr>"
| "set_control PbrMin v st = st\<lparr>kw_pbr_min := v\<rparr>"
| "set_control PbrMax v st = st\<lparr>kw_pbr_max := v\<rparr>"
| "set_control CapMin v st = st\<lparr>kw_cap_min := v\<rparr>"

text \<open>The click listener of \<open>kw-reset\<close> (lines 148 to 157).\<close>

definition reset :: "host \<Rightarrow> state \<Rightarrow> state \<times> exn option" where
  "reset h st =
     render h (st\<lparr>kw_sector := [], kw_search := [], kw_per_min := [], kw_per_max := [],
                  kw_pbr_min := [], kw_pbr_max := [], kw_cap_min := []\<rparr>)"

text \<open>
  The start of the script (lines 16 to 18 and 140 to 159) on the page as it is delivered:
  the variables get their initial values and \<open>init\<close> sends its request.
\<close>

definition boot :: "state \<Rightarrow> state" where
  "boot page = page\<lparr>allRows := [], sortKey := key_cap, sortAsc := False,
                    fetches := Suc (fetches page), pending := True\<rparr>"

text \<open>
  What can happen afterwards: the user changes a control (the listeners of lines 140 to
  146 call \<open>render\<close>), clicks the reset button, clicks the \<open>i\<close>-th header cell, or the
  request comes back. An exception that leaves a listener is reported by the browser and
  the page keeps what the listener had done.
\<close>

datatype event = Input control jsstring | Reset | Click nat | Loaded outcome

fun step :: "host \<Rightarrow> state \<Rightarrow> event \<Rightarrow> state" where
  "step h st (Input c v) = fst (render h (set_control c v st))"
| "step h st Reset = fst (reset h st)"
| "step h st (Click i) =
     (if i < length (kw_thead st)
      then (case th_listener (kw_thead st ! i) of
              None \<Rightarrow> st
            | Some c \<Rightarrow> fst (header_click h c st))
      else st)"
| "step h st (Loaded out) = (if pending st then (init h st out)\<lparr>pending := False\<rparr> else st)"

definition run :: "host \<Rightarrow> state \<Rightarrow> event list \<Rightarrow> state" where
  "run h st evs = foldl (step h) st evs"

text \<open>The states the widget can be in on a page whose header row starts empty.\<close>

inductive reachable :: "host \<Rightarrow> state \<Rightarrow> bool" for h :: host where
  reach_boot: "kw_thead page = [] \<Longrightarrow> reachable h (boot page)"
| reach_step: "reachable h st \<Longrightarrow> reachable h (step h st ev)"


subsection \<open>Reading the properties\<close>







text \<open>\<open>p\<close> occurs in \<open>s\<close>.\<close>

definition occurs_in :: "jsstring \<Rightarrow> jsstring \<Rightarrow> bool" where
  "occurs_in p s = (\<exists>us vs. s = us @ p @ vs)"

text \<open>
  The filter as the specification words it, on the text of the controls: a bound counts
  when its control holds a number, the name is searched for the search text.
\<close>

definition bound_set :: "jsstring \<Rightarrow> bool" where
  "bound_set v = (\<not> isNaN (parseFloat v))"

definition passes_as_stated :: "host \<Rightarrow> state \<Rightarrow> row \<Rightarrow> bool" where
  "passes_as_stated h st r =
     ((kw_sector st \<noteq> [] \<longrightarrow> r_sector r = Val (kw_sector st))
      \<and> (kw_search st \<noteq> [] \<longrightarrow>
            occurs_in (toLowerCase h (kw_search st)) (toLowerCase h (r_name r)))
      \<and> (bound_set (kw_per_min st) \<longrightarrow> js_le (parseFloat (kw_per_min st)) (r_per r))
      \<and> (bound_set (kw_per_max st) \<longrightarrow> js_le (r_per r) (parseFloat (kw_per_max st)))
      \<and> (bound_set (kw_pbr_min st) \<longrightarrow> js_le (parseFloat (kw_pbr_min st)) (r_pbr r))
      \<and> (bound_set (kw_pbr_max st) \<longrightarrow> js_le (r_pbr r) (parseFloat (kw_pbr_max st)))
      \<and> (bound_set (kw_cap_min st) \<longrightarrow>
            js_ge (r_cap r) (js_mul (parseFloat (kw_cap_min st)) (Fin 10000))))"

text \<open>
  The filter as the script applies it: the search text is trimmed before it is
  lower-cased, and a value that is \<open>NaN\<close> is below no bound and above none.
\<close>

definition search_text :: "host \<Rightarrow> state \<Rightarrow> jsstring" where
  "search_text h st = toLowerCase h (trim (kw_search st))"

definition cap_min :: "state \<Rightarrow> jsnum" where
  "cap_min st = js_mul (parseFloat (kw_cap_min st)) (Fin 10000)"

definition passes :: "host \<Rightarrow> state \<Rightarrow> row \<Rightarrow> bool" where
  "passes h st r =
     ((kw_sector st \<noteq> [] \<longrightarrow> r_sector r = Val (kw_sector st))
      \<and> (search_text h st \<noteq> [] \<longrightarrow> occurs_in (search_text h st) (toLowerCase h (r_name r)))
      \<and> (bound_set (kw_per_min st) \<longrightarrow>
            isNaN (r_per r) \<or> js_le (parseFloat (kw_per_min st)) (r_per r))
      \<and> (bound_set (kw_per_max st) \<longrightarrow>
            isNaN (r_per r) \<or> js_le (r_per r) (parseFloat (kw_per_max st)))
      \<and> (bound_set (kw_pbr_min st) \<longrightarrow>
            isNaN (r_pbr r) \<or> js_le (parseFloat (kw_pbr_min st)) (r_pbr r))
      \<and> (bound_set (kw_pbr_max st) \<longrightarrow>
            isNaN (r_pbr r) \<or> js_le (r_pbr r) (parseFloat (kw_pbr_max st)))
      \<and> (\<not> isNaN (cap_min st) \<longrightarrow> isNaN (r_cap r) \<or> js_ge (r_cap r) (cap_min st)))"

text \<open>The single constraints, for a row on a state.\<close>

definition sector_ok :: "state \<Rightarrow> row \<Rightarrow> bool" where
  "sector_ok st r = (kw_sector st = [] \<or> r_sector r = Val (kw_sector st))"

definition name_ok :: "host \<Rightarrow> state \<Rightarrow> row \<Rightarrow> bool" where
  "name_ok h st r =
     (search_text h st = [] \<or> occurs_in (search_text h st) (toLowerCase h (r_name r)))"

definition per_ok :: "state \<Rightarrow> row \<Rightarrow> bool" where
  "per_ok st r =
     (\<not> (bound_set (kw_per_min st) \<and> js_lt (r_per r) (parseFloat (kw_per_min st)))
      \<and> \<not> (bound_set (kw_per_max st) \<and> js_gt (r_per r) (parseFloat (kw_per_max st))))"

definition pbr_ok :: "state \<Rightarrow> row \<Rightarrow> bool" where
  "pbr_ok st r =
     (\<not> (bound_set (kw_pbr_min st) \<and> js_lt (r_pbr r) (parseFloat (kw_pbr_min st)))
      \<and> \<not> (bound_set (kw_pbr_max st) \<and> js_gt (r_pbr r) (parseFloat (kw_pbr_max st))))"

definition cap_ok :: "state \<Rightarrow> row \<Rightarrow> bool" where
  "cap_ok st r = (\<not> (\<not> isNaN (cap_min st) \<and> js_lt (r_cap r) (cap_min st)))"

text \<open>What a failed load reports: the reason inside the message of the status region.\<close>

fun load_failure :: "outcome \<Rightarrow> bool" where
  "load_failure (Rejected m) = True"
| "load_failure (Response status (Malformed m)) = True"
| "load_failure (Response status (Parsed f)) = (\<not> response_ok status)"

fun failure_reason :: "outcome \<Rightarrow> jsstring" where
  "failure_reason (Rejected m) = m"
| "failure_reason (Response status b) =
     (if \<not> response_ok status then ascii ''HTTP error: '' @ digits status
      else case b of Malformed m \<Rightarrow> m | Parsed f \<Rightarrow> [])"

text \<open>The listeners that \<open>buildHeader\<close> registers, cell by cell.\<close>

definition listeners :: "col option list" where
  "listeners = map (\<lambda>c. if sortable c then Some c else None) COLS"

definition sortable_keys :: "jsstring set" where
  "sortable_keys = key ` {c \<in> set COLS. sortable c}"

text \<open>The sectors of the rows that are strings and not empty.\<close>

definition sector_set :: "row list \<Rightarrow> jsstring set" where
  "sector_set rows = {s. s \<noteq> [] \<and> (\<exists>r \<in> set rows. r_sector r = Val s)}"

subsection \<open>A host and a page to try the widget on\<close>

definition lower_ascii :: "jsstring \<Rightarrow> jsstring" where
  "lower_ascii s = map (\<lambda>c. if 65 \<le> c \<and> c \<le> 90 then c + 32 else c) s"

text \<open>Letters of either case together, the small letter first among equals.\<close>

definition compare_folded :: "jsstring \<Rightarrow> jsstring \<Rightarrow> int" where
  "compare_folded a b =
     (let x = lower_ascii a; y = lower_ascii b
      in if str_lt x y then - 1 else if str_lt y x then 1
         else if str_lt b a then - 1 else if str_lt a b then 1 else 0)"

definition frac_text :: "nat \<Rightarrow> jsstring" where
  "frac_text f =
     (if f = 0 then []
      else 46 # rev (dropWhile (\<lambda>c. c = 48)
                       (rev (replicate (3 - length (digits f)) 48 @ digits f))))"

text \<open>At most three fraction digits, the integer part grouped or not.\<close>

definition decimal_text :: "bool \<Rightarrow> rat \<Rightarrow> jsstring" where
  "decimal_text grouped q =
     (let n = nat \<lfloor>\<bar>q\<bar> * 1000 + 1 / 2\<rfloor>; ip = digits (n div 1000)
      in minus_sign q @ (if grouped then group3 ip else ip) @ frac_text (n mod 1000))"

definition demo_host :: host where
  "demo_host =
     \<lparr>lowerCaseMapping = lower_ascii,
      localeCompare_ko = compare_folded,
      numberToString = decimal_text False,
      numberToLocaleString =
        (\<lambda>x. case x of NaN \<Rightarrow> ascii ''NaN'' | PInf \<Rightarrow> [8734] | NInf \<Rightarrow> [45, 8734]
              | Fin q \<Rightarrow> decimal_text True q),
      stringToNumber = parseFloat,
      typeErrorMessage = ascii ''Cannot read properties of undefined''\<rparr>"

definition demo_page :: state where
  "demo_page =
     \<lparr>allRows = [], sortKey = [], sortAsc = False,
      kw_sector = [], kw_search = [], kw_per_min = [], kw_per_max = [],
      kw_pbr_min = [], kw_pbr_max = [], kw_cap_min = [],
      kw_sector_options = [[]], kw_date = [],
      kw_status_display = [], kw_status_class = [], kw_status_text = ascii ''...'',
      kw_table_wrap_display = ascii ''none'', kw_thead = [], kw_count = [], kw_tbody = [],
      fetches = 0, pending = False\<rparr>"

definition row1 :: row where
  "row1 = \<lparr>r_ticker = ascii ''005930'', r_name = ascii ''Samsung'',
           r_sector = Val (ascii ''tech''), r_cap = Fin 12345, r_per = Fin 12,
           r_pbr = Fin 1, r_eps = Val (Fin 5000), r_bps = Missing\<rparr>"

definition row2 :: row where
  "row2 = \<lparr>r_ticker = ascii ''000660'', r_name = ascii ''SK hynix'',
           r_sector = Val (ascii ''Chips''), r_cap = Fin 9999, r_per = NaN,
           r_pbr = Fin 1, r_eps = Null, r_bps = Val (Fin (2469 / 2))\<rparr>"

definition row3 :: row where
  "row3 = \<lparr>r_ticker = ascii ''035420'', r_name = ascii ''NAVER'',
           r_sector = Val (ascii ''bio''), r_cap = Fin (2469 / 2), r_per = Fin 30,
           r_pbr = Fin 2, r_eps = Val NaN, r_bps = Val (Fin 1234567)\<rparr>"

definition demo_fund :: fund where
  "demo_fund = \<lparr>date = ascii ''20240131'', data = [row1, row2, row3]\<rparr>"

definition demo_loaded :: state where
  "demo_loaded = step demo_host (boot demo_page) (Loaded (Response 200 (Parsed demo_fund)))"

text \<open>The loaded page after the user has typed \<open>v\<close> into one control.\<close>

definition demo_with :: "control \<Rightarrow> jsstring \<Rightarrow> state" where
  "demo_with c v = step demo_host demo_loaded (Input c v)"

section \<open>Properties\<close>

subsection \<open>Rounding to binary64\<close>

lemma p2_less_iff: "(2::rat) powi m < 2 powi n \<longleftrightarrow> m < n"
proof
  assume "(2::rat) powi m < 2 powi n"
  show "m < n"
  proof (rule ccontr)
    assume "\<not> m < n"
    then have "n \<le> m" by simp
    then have "(2::rat) powi n \<le> 2 powi m" by (simp add: power_int_increasing)
    with \<open>(2::rat) powi m < 2 powi n\<close> show False by simp
  qed
next
  assume "m < n"
  then show "(2::rat) powi m < 2 powi n" by (simp add: power_int_strict_increasing)
qed

lemma p2_le_iff: "(2::rat) powi m \<le> 2 powi n \<longleftrightarrow> m \<le> n"
  using p2_less_iff[of n m] by (auto simp: not_less[symmetric])

lemma ilog2_bounds:
  assumes "0 < a"
  shows "2 powi (ilog2 a) \<le> a" and "a < 2 powi (ilog2 a + 1)"
proof -
  obtain p q where pq: "quotient_of a = (p, q)" by (cases "quotient_of a")
  have q: "0 < q" using pq quotient_of_denom_pos by blast
  have a: "a = of_int p / of_int q" using pq quotient_of_div by blast
  have p: "0 < p" using assms q a by (simp add: zero_less_divide_iff)
  define bp where "bp = floorlog 2 (nat p)"
  define bq where "bq = floorlog 2 (nat q)"
  define e0 where "e0 = int bp - int bq"
  have bp: "2 ^ (bp - 1) \<le> nat p" "nat p < 2 ^ bp"
    using floorlog_bounds[of "nat p" 2] p by (simp_all add: bp_def)
  have bq: "2 ^ (bq - 1) \<le> nat q" "nat q < 2 ^ bq"
    using floorlog_bounds[of "nat q" 2] q by (simp_all add: bq_def)
  have bp0: "0 < bp" using p by (simp add: bp_def floorlog_eq_zero_iff Suc_le_eq zero_less_iff_neq_zero)
  have bq0: "0 < bq" using q by (simp add: bq_def floorlog_eq_zero_iff zero_less_iff_neq_zero)
  have pr: "(2::rat) ^ (bp - 1) \<le> of_int p" "(of_int p :: rat) < 2 ^ bp"
  proof -
    have "(of_nat (2 ^ (bp - 1)) :: rat) \<le> of_nat (nat p)" using bp(1) of_nat_le_iff by blast
    then show "(2::rat) ^ (bp - 1) \<le> of_int p" using p by simp
    have "(of_nat (nat p) :: rat) < of_nat (2 ^ bp)" using bp(2) of_nat_less_iff by blast
    then show "(of_int p :: rat) < 2 ^ bp" using p by simp
  qed
  have qr: "(2::rat) ^ (bq - 1) \<le> of_int q" "(of_int q :: rat) < 2 ^ bq"
  proof -
    have "(of_nat (2 ^ (bq - 1)) :: rat) \<le> of_nat (nat q)" using bq(1) of_nat_le_iff by blast
    then show "(2::rat) ^ (bq - 1) \<le> of_int q" using q by simp
    have "(of_nat (nat q) :: rat) < of_nat (2 ^ bq)" using bq(2) of_nat_less_iff by blast
    then show "(of_int q :: rat) < 2 ^ bq" using q by simp
  qed
  have qpos: "(0::rat) < of_int q" using q by simp
  have lo: "2 powi (e0 - 1) < a"
  proof -
    have "e0 - 1 = int (bp - 1) - int bq"
      using bp0 by (simp add: e0_def of_nat_diff)
    then have "(2::rat) powi (e0 - 1) = 2 powi (int (bp - 1) - int bq)" by simp
    also have "\<dots> = 2 ^ (bp - 1) / 2 ^ bq" by (simp add: power_int_diff)
    also have "\<dots> \<le> of_int p / 2 ^ bq" using pr(1) by (simp add: divide_right_mono)
    also have "\<dots> < of_int p / of_int q"
      using qr(2) qpos p by (simp add: divide_strict_left_mono)
    finally show ?thesis by (simp add: a)
  qed
  have hi: "a < 2 powi (e0 + 1)"
  proof -
    have "a = of_int p / of_int q" by (fact a)
    also have "\<dots> < 2 ^ bp / of_int q" using pr(2) qpos by (simp add: divide_strict_right_mono)
    also have "\<dots> \<le> 2 ^ bp / 2 ^ (bq - 1)"
      by (rule divide_left_mono[OF qr(1)]) (use qpos in simp_all)
    also have "\<dots> = 2 powi (int bp - int (bq - 1))" by (simp add: power_int_diff)
    also have "int bp - int (bq - 1) = e0 + 1" using bq0 by (simp add: e0_def of_nat_diff)
    finally show ?thesis .
  qed
  have il: "ilog2 a = (if 2 powi e0 \<le> a then e0 else e0 - 1)"
    by (simp add: ilog2_def pq Let_def e0_def bp_def bq_def)
  show "2 powi (ilog2 a) \<le> a" using lo by (simp add: il)
  show "a < 2 powi (ilog2 a + 1)" using hi by (auto simp add: il not_le)
qed




lemma round_half_even_of_int: "round_half_even (of_int k) = k"
  by (simp add: round_half_even_def)



lemma rnd_nonzero:
  assumes "x \<noteq> 0"
  shows "rnd x =
     (let a = \<bar>x\<bar>; e = max (ilog2 a) (- 1022); u = 2 powi (e - 52);
          m = round_half_even (a / u)
      in if 1023 < e \<or> (e = 1023 \<and> 2 ^ 53 \<le> m) then (if x < 0 then NInf else PInf)
         else Fin (sgn x * of_int m * u))"
  using assms by (simp add: rnd_def)





text \<open>Integers up to \<open>2^53\<close> in absolute value are binary64 values.\<close>

lemma is_double_nat:
  assumes "0 < n" and "n \<le> 2 ^ 53"
  shows "is_double (of_int n)"
proof -
  define a :: rat where "a = of_int n"
  have a0: "0 < a" using assms(1) by (simp add: a_def)
  have a53: "a \<le> 2 ^ 53"
  proof -
    have "(of_int n :: rat) \<le> of_int (2 ^ 53)" using assms(2) by (simp only: of_int_le_iff)
    then show ?thesis by (simp add: a_def)
  qed
  define e where "e = ilog2 a"
  note b = ilog2_bounds[OF a0, folded e_def]
  have "1 \<le> a" using assms(1) by (simp add: a_def)
  then have "(2::rat) powi 0 < 2 powi (e + 1)" using b(2) by simp
  then have e0: "0 \<le> e" using p2_less_iff[of 0 "e + 1"] by simp
  have "(2::rat) powi e \<le> 2 powi 53" using b(1) a53 by simp
  then have e53: "e \<le> 53" by (simp only: p2_le_iff)
  have mx: "max e (- 1022) = e" using e0 by simp
  have "\<exists>k::int. a / 2 powi (e - 52) = of_int k"
  proof (cases "e \<le> 52")
    case True
    have "a / 2 powi (e - 52) = a * 2 powi (52 - e)"
      by (simp add: power_int_diff field_simps)
    also have "(2::rat) powi (52 - e) = 2 ^ nat (52 - e)" using True by (simp add: power_int_def)
    also have "a * 2 ^ nat (52 - e) = of_int (n * 2 ^ nat (52 - e))" by (simp add: a_def)
    finally show ?thesis by blast
  next
    case False
    then have e: "e = 53" using e53 by simp
    then have "2 ^ 53 \<le> a" using b(1) by simp
    then have "a = 2 ^ 53" using a53 by simp
    then have "a / 2 powi (e - 52) = of_int (2 ^ 52)" by (simp add: e)
    then show ?thesis by blast
  qed
  then obtain k :: int where k: "a / 2 powi (e - 52) = of_int k" by blast
  have ak: "a = of_int k * 2 powi (e - 52)" using k by (simp add: field_simps)
  have klt: "k < 2 ^ 53"
  proof -
    have pe: "(2::rat) powi (e + 1) = 2 ^ 53 * 2 powi (e - 52)"
      using power_int_add[of "2::rat" 53 "e - 52"] by (simp add: add.commute)
    have "of_int k * 2 powi (e - 52) < (2::rat) powi (e + 1)" using b(2) ak by simp
    also note pe
    finally have "(of_int k :: rat) < 2 ^ 53" by (simp only: mult_less_cancel_right_pos zero_less_power_int zero_less_numeral)
    then have "(of_int k :: rat) < of_int (2 ^ 53)" by simp
    then show ?thesis by (simp only: of_int_less_iff)
  qed
  have nz: "a \<noteq> 0" "\<bar>a\<bar> = a" "sgn a = 1" using a0 by simp_all
  have rk: "round_half_even (a / 2 powi (e - 52)) = k"
    by (simp only: k round_half_even_of_int)
  have "rnd a = (if 1023 < e \<or> (e = 1023 \<and> 2 ^ 53 \<le> k)
      then (if a < 0 then NInf else PInf) else Fin (sgn a * of_int k * 2 powi (e - 52)))"
    using rnd_nonzero[OF nz(1)] by (simp only: Let_def nz(2) e_def[symmetric] mx rk)
  then have "rnd a = Fin (sgn a * of_int k * 2 powi (e - 52))"
    using e53 by simp
  then have "rnd a = Fin (of_int k * 2 powi (e - 52))" by (simp only: nz(3) mult_1)
  then have "rnd a = Fin a" by (simp only: ak[symmetric])
  then show ?thesis by (simp add: is_double_def a_def)
qed

lemma rnd_minus: "rnd (- x) = (case rnd x of Fin y \<Rightarrow> Fin (- y) | PInf \<Rightarrow> NInf | NInf \<Rightarrow> PInf | NaN \<Rightarrow> NaN)"
  by (cases "x = 0"; cases "x < 0") (auto simp add: rnd_def Let_def sgn_if)

lemma is_double_minus: "is_double q \<Longrightarrow> is_double (- q)"
  by (simp add: is_double_def rnd_minus)

lemma is_double_0: "is_double 0"
  by (simp add: is_double_def rnd_def)

lemma is_double_int:
  assumes "\<bar>n\<bar> \<le> 2 ^ 53"
  shows "is_double (of_int n)"
proof -
  consider "n = 0" | "0 < n" | "n < 0" by linarith
  then show ?thesis
  proof cases
    case 1 then show ?thesis by (simp add: is_double_0)
  next
    case 2 then show ?thesis using assms by (simp add: is_double_nat)
  next
    case 3
    then have "is_double (of_int (- n))" using assms by (intro is_double_nat) simp_all
    then have "is_double (- of_int (- n))" by (rule is_double_minus)
    then show ?thesis by simp
  qed
qed

subsection \<open>Strings\<close>

lemma indexOf_from_nonneg: "indexOf_from k s p = - 1 \<or> 0 \<le> indexOf_from k s p"
  by (induction k s p rule: indexOf_from.induct) auto

lemma indexOf_from_found:
  "indexOf_from k s p \<noteq> - 1 \<longleftrightarrow> occurs_in p s"
proof (induction k s p rule: indexOf_from.induct)
  case (1 k p)
  then show ?case by (auto simp: occurs_in_def)
next
  case (2 k c s p)
  show ?case
  proof (cases "starts_with p (c # s)")
    case True
    then have "c # s = [] @ p @ drop (length p) (c # s)"
      by (simp add: starts_with_def) (metis append_take_drop_id)
    then have "occurs_in p (c # s)" unfolding occurs_in_def by blast
    with True show ?thesis by simp
  next
    case False
    have "occurs_in p (c # s) \<longleftrightarrow> occurs_in p s"
    proof
      assume "occurs_in p (c # s)"
      then obtain us vs where e: "c # s = us @ p @ vs" unfolding occurs_in_def by blast
      show "occurs_in p s"
      proof (cases us)
        case Nil
        then have "take (length p) (c # s) = p" using e by simp
        with False show ?thesis by (simp add: starts_with_def)
      next
        case (Cons u us')
        then have "s = us' @ p @ vs" using e by simp
        then show ?thesis unfolding occurs_in_def by blast
      qed
    next
      assume "occurs_in p s"
      then obtain us vs where "s = us @ p @ vs" unfolding occurs_in_def by blast
      then have "c # s = (c # us) @ p @ vs" by simp
      then show "occurs_in p (c # s)" unfolding occurs_in_def by blast
    qed
    with False 2 show ?thesis by simp
  qed
qed

lemma indexOf_found: "indexOf s p = - 1 \<longleftrightarrow> \<not> occurs_in p s"
  using indexOf_from_found[of 0 s p] unfolding indexOf_def by blast

lemma str_lt_irrefl: "\<not> str_lt a a"
  by (induction a) auto

lemma str_lt_trans: "str_lt a b \<Longrightarrow> str_lt b c \<Longrightarrow> str_lt a c"
proof (induction a b arbitrary: c rule: str_lt.induct)
  case 1 then show ?case by simp
next
  case (2 y ys) then show ?case by (cases c) auto
next
  case (3 x xs) then show ?case by simp
next
  case (4 x xs y ys) then show ?case by (cases c) auto
qed

lemma str_lt_total: "str_lt a b \<or> a = b \<or> str_lt b a"
  by (induction a b rule: str_lt.induct) auto

lemma str_lt_asym: "str_lt a b \<Longrightarrow> \<not> str_lt b a"
  using str_lt_trans str_lt_irrefl by blast

subsection \<open>The sort\<close>

lemma js_sort_Nil: "js_sort c [] = []"
  by (simp add: js_sort_def)

lemma js_sort_Cons: "js_sort c (x # xs) = insert_sorted c x (js_sort c xs)"
  by (simp add: js_sort_def)

lemma mset_insert_sorted: "mset (insert_sorted c x ys) = add_mset x (mset ys)"
  by (induction ys) simp_all

lemma mset_js_sort: "mset (js_sort c xs) = mset xs"
  by (induction xs) (simp_all add: js_sort_Nil js_sort_Cons mset_insert_sorted)

lemma set_js_sort: "set (js_sort c xs) = set xs"
  by (rule mset_eq_setD[OF mset_js_sort])

lemma length_js_sort: "length (js_sort c xs) = length xs"
  by (rule mset_eq_length[OF mset_js_sort])

lemma set_insert_sorted: "set (insert_sorted c x ys) = insert x (set ys)"
  by (induction ys) auto

text \<open>
  \<open>R a b\<close> stands for "the comparison function does not put \<open>a\<close> after \<open>b\<close>". When this
  is total and transitive on the elements, the sort returns them in this order.
\<close>

lemma sorted_insert_sorted:
  assumes R: "\<forall>a b. R a b = (\<not> js_lt (Fin 0) (sortCompare c a b))"
    and tot: "\<forall>a \<in> S. \<forall>b \<in> S. R a b \<or> R b a"
    and trans: "\<forall>a \<in> S. \<forall>b \<in> S. \<forall>d \<in> S. R a b \<longrightarrow> R b d \<longrightarrow> R a d"
  shows "x \<in> S \<Longrightarrow> set ys \<subseteq> S \<Longrightarrow> sorted_wrt R ys \<Longrightarrow> sorted_wrt R (insert_sorted c x ys)"
proof (induction ys)
  case Nil
  show ?case by simp
next
  case (Cons y ys)
  have x: "x \<in> S" by (fact Cons.prems(1))
  have y: "y \<in> S" using Cons.prems(2) by simp
  have ys: "set ys \<subseteq> S" using Cons.prems(2) by simp
  have s: "sorted_wrt R ys" using Cons.prems(3) by simp
  have yz: "\<forall>z \<in> set ys. R y z" using Cons.prems(3) by simp
  have ih: "sorted_wrt R (insert_sorted c x ys)" by (rule Cons.IH[OF x ys s])
  show ?case
  proof (cases "R x y")
    case True
    have e: "insert_sorted c x (y # ys) = x # y # ys" using True R by simp
    have "\<forall>z \<in> set ys. R x z"
    proof
      fix z assume z: "z \<in> set ys"
      then have "z \<in> S" using ys by blast
      moreover have "R y z" using yz z by blast
      ultimately show "R x z" using trans x y True by blast
    qed
    then show ?thesis unfolding e using True yz s by simp
  next
    case False
    have e: "insert_sorted c x (y # ys) = y # insert_sorted c x ys" using False R by simp
    have "R y x" using tot x y False by blast
    then have "\<forall>z \<in> set (insert_sorted c x ys). R y z"
      using yz by (simp add: set_insert_sorted)
    then show ?thesis unfolding e using ih by simp
  qed
qed

lemma sorted_js_sort:
  assumes R: "\<forall>a b. R a b = (\<not> js_lt (Fin 0) (sortCompare c a b))"
    and tot: "\<forall>a \<in> S. \<forall>b \<in> S. R a b \<or> R b a"
    and trans: "\<forall>a \<in> S. \<forall>b \<in> S. \<forall>d \<in> S. R a b \<longrightarrow> R b d \<longrightarrow> R a d"
  shows "set xs \<subseteq> S \<Longrightarrow> sorted_wrt R (js_sort c xs)"
proof (induction xs)
  case Nil
  show ?case by (simp add: js_sort_Nil)
next
  case (Cons x xs)
  have x: "x \<in> S" using Cons.prems by simp
  have xs: "set xs \<subseteq> S" using Cons.prems by simp
  have ih: "sorted_wrt R (js_sort c xs)" by (rule Cons.IH[OF xs])
  have "set (js_sort c xs) \<subseteq> S" using xs by (simp add: set_js_sort)
  then have "sorted_wrt R (insert_sorted c x (js_sort c xs))"
    using sorted_insert_sorted[OF R tot trans x _ ih] by blast
  then show ?case by (simp add: js_sort_Cons)
qed




subsection \<open>Reading a row\<close>

lemmas key_defs = key_rank_def key_ticker_def key_name_def key_sector_def key_cap_def
  key_per_def key_pbr_def key_eps_def key_bps_def

lemma get_keys:
  "get r key_ticker = Str (r_ticker r)"
  "get r key_name = Str (r_name r)"
  "get r key_sector = field_val Str (r_sector r)"
  "get r key_cap = Num (r_cap r)"
  "get r key_per = Num (r_per r)"
  "get r key_pbr = Num (r_pbr r)"
  "get r key_eps = field_val Num (r_eps r)"
  "get r key_bps = field_val Num (r_bps r)"
  "get r key_rank = Undefined"
  by (simp_all add: get_def key_defs)

subsection \<open>The body rows never raise\<close>

lemma epsStr_value:
  "epsStr h r = Inr (case r_eps r of Val (Fin q) \<Rightarrow> number_toLocaleString h (Fin q) | _ \<Rightarrow> [45])"
  by (cases "r_eps r" rule: field.exhaust; simp add: epsStr_def get_keys split: jsnum.splits)

lemma bpsStr_value:
  "bpsStr h r = Inr (case r_bps r of Val (Fin q) \<Rightarrow> number_toLocaleString h (Fin q) | _ \<Rightarrow> [45])"
  by (cases "r_bps r" rule: field.exhaust; simp add: bpsStr_def get_keys split: jsnum.splits)

lemma render_row_returns: "\<exists>t. render_row h i r = Inr t"
  by (simp add: render_row_def epsStr_value bpsStr_value)

lemma render_rows_ok:
  "snd (render_rows h i rows) = None \<and> length (fst (render_rows h i rows)) = length rows"
proof (induction rows arbitrary: i)
  case Nil
  show ?case by simp
next
  case (Cons r rows)
  obtain t where t: "render_row h i r = Inr t" using render_row_returns by blast
  show ?case using Cons[of "Suc i"] by (simp add: t case_prod_unfold)
qed

subsection \<open>The header cells\<close>

lemma reflow_listeners:
  "map th_listener (fst (reflow h k asc ths cs)) = map th_listener ths"
  by (induction h k asc ths cs rule: reflow.induct) (simp_all add: case_prod_unfold Let_def)

lemma reflow_length: "length (fst (reflow h k asc ths cs)) = length ths"
  by (induction h k asc ths cs rule: reflow.induct) (simp_all add: case_prod_unfold Let_def)

lemma reflow_ok: "length ths \<le> length cs \<Longrightarrow> snd (reflow h k asc ths cs) = None"
  by (induction h k asc ths cs rule: reflow.induct) (simp_all add: case_prod_unfold Let_def)

subsection \<open>What \<open>render\<close> changes\<close>

lemma render_frame:
  "allRows (fst (render h st)) = allRows st"
  "sortKey (fst (render h st)) = sortKey st"
  "sortAsc (fst (render h st)) = sortAsc st"
  "kw_sector (fst (render h st)) = kw_sector st"
  "kw_search (fst (render h st)) = kw_search st"
  "kw_per_min (fst (render h st)) = kw_per_min st"
  "kw_per_max (fst (render h st)) = kw_per_max st"
  "kw_pbr_min (fst (render h st)) = kw_pbr_min st"
  "kw_pbr_max (fst (render h st)) = kw_pbr_max st"
  "kw_cap_min (fst (render h st)) = kw_cap_min st"
  "kw_sector_options (fst (render h st)) = kw_sector_options st"
  "kw_date (fst (render h st)) = kw_date st"
  "kw_status_display (fst (render h st)) = kw_status_display st"
  "kw_status_class (fst (render h st)) = kw_status_class st"
  "kw_status_text (fst (render h st)) = kw_status_text st"
  "kw_table_wrap_display (fst (render h st)) = kw_table_wrap_display st"
  "fetches (fst (render h st)) = fetches st"
  "pending (fst (render h st)) = pending st"
  by (simp_all add: render_def Let_def case_prod_unfold split: option.splits)

lemma render_thead:
  "kw_thead (fst (render h st)) = fst (reflow h (sortKey st) (sortAsc st) (kw_thead st) COLS)"
  by (simp add: render_def Let_def case_prod_unfold split: option.splits)

lemma render_listeners:
  "map th_listener (kw_thead (fst (render h st))) = map th_listener (kw_thead st)"
  by (simp add: render_thead reflow_listeners)

lemma render_thead_length: "length (kw_thead (fst (render h st))) = length (kw_thead st)"
  by (simp add: render_thead reflow_length)

lemma render_ok:
  assumes "length (kw_thead st) \<le> length COLS"
  shows "snd (render h st) = None"
    and "kw_count (fst (render h st)) = digits (length (shown_rows h st)) @ count_suffix"
    and "length (kw_tbody (fst (render h st))) = length (shown_rows h st)"
proof -
  have r: "snd (reflow h (sortKey st) (sortAsc st) (kw_thead st) COLS) = None"
    using assms by (rule reflow_ok)
  note rr = render_rows_ok[of h 0 "shown_rows h st"]
  show "snd (render h st) = None"
    using r rr by (simp add: render_def Let_def case_prod_unfold split: option.splits)
  show "kw_count (fst (render h st)) = digits (length (shown_rows h st)) @ count_suffix"
    using r by (simp add: render_def Let_def case_prod_unfold split: option.splits)
  show "length (kw_tbody (fst (render h st))) = length (shown_rows h st)"
    using r rr by (simp add: render_def Let_def case_prod_unfold split: option.splits)
qed

subsection \<open>What the listeners and \<open>init\<close> change\<close>

lemma show_error_frame:
  "sortKey (show_error st e) = sortKey st"
  "sortAsc (show_error st e) = sortAsc st"
  "allRows (show_error st e) = allRows st"
  "kw_thead (show_error st e) = kw_thead st"
  "kw_sector_options (show_error st e) = kw_sector_options st"
  "kw_table_wrap_display (show_error st e) = kw_table_wrap_display st"
  "kw_status_display (show_error st e) = kw_status_display st"
  "fetches (show_error st e) = fetches st"
  "pending (show_error st e) = pending st"
  by (simp_all add: show_error_def)

lemma init_failed:
  "load_failure out \<Longrightarrow> init h st out = show_error st (Exn (failure_reason out))"
  by (cases out rule: load_failure.cases) (simp_all add: init_def)

text \<open>The state in which \<open>init\<close> calls \<open>render\<close> after a successful load.\<close>

lemma init_loaded:
  assumes "response_ok status"
  shows "\<exists>st6 e. allRows st6 = data f \<and> sortKey st6 = sortKey st \<and> sortAsc st6 = sortAsc st
      \<and> kw_thead st6 = kw_thead st @ map (make_th (sortKey st)) COLS
      \<and> kw_sector_options st6 = kw_sector_options st @ sectors (data f)
      \<and> fetches st6 = fetches st \<and> pending st6 = pending st
      \<and> kw_sector st6 = kw_sector st \<and> kw_search st6 = kw_search st
      \<and> kw_per_min st6 = kw_per_min st \<and> kw_per_max st6 = kw_per_max st
      \<and> kw_pbr_min st6 = kw_pbr_min st \<and> kw_pbr_max st6 = kw_pbr_max st
      \<and> kw_cap_min st6 = kw_cap_min st
      \<and> (init h st (Response status (Parsed f)) = fst (render h st6)
           \<or> init h st (Response status (Parsed f)) = show_error (fst (render h st6)) e)"
proof -
  define st6 where "st6 = (buildHeader (st\<lparr>allRows := data f,
      kw_date := date_prefix @ slice (date f) 0 4 @ [45] @ slice (date f) 4 6 @ [45]
                 @ slice (date f) 6 8,
      kw_sector_options := kw_sector_options st @ sectors (data f)\<rparr>))
      \<lparr>kw_status_display := ascii ''none'', kw_table_wrap_display := []\<rparr>"
  have i: "init h st (Response status (Parsed f)) =
      (case snd (render h st6) of None \<Rightarrow> fst (render h st6)
       | Some e \<Rightarrow> show_error (fst (render h st6)) e)"
    using assms by (simp add: init_def Let_def case_prod_unfold st6_def split: option.splits)
  have "init h st (Response status (Parsed f)) = fst (render h st6)
      \<or> init h st (Response status (Parsed f)) = show_error (fst (render h st6)) (the (snd (render h st6)))"
    unfolding i by (cases "snd (render h st6)") simp_all
  then show ?thesis
    by (intro exI[of _ st6] exI[of _ "the (snd (render h st6))"]) (simp add: st6_def buildHeader_def)
qed

lemma set_control_frame:
  "allRows (set_control c v st) = allRows st"
  "sortKey (set_control c v st) = sortKey st"
  "sortAsc (set_control c v st) = sortAsc st"
  "kw_thead (set_control c v st) = kw_thead st"
  "kw_sector_options (set_control c v st) = kw_sector_options st"
  "kw_table_wrap_display (set_control c v st) = kw_table_wrap_display st"
  "fetches (set_control c v st) = fetches st"
  "pending (set_control c v st) = pending st"
  by (cases c; simp)+

lemma listeners_make_th: "map th_listener (map (make_th k) COLS) = listeners"
  by (simp add: listeners_def make_th_def)

lemma listeners_make_th': "map (th_listener \<circ> make_th k) COLS = listeners"
  by (simp add: listeners_def make_th_def)

lemma length_listeners: "length listeners = length COLS"
  by (simp add: listeners_def)

lemma listeners_nth:
  "i < length COLS \<Longrightarrow> listeners ! i = (if sortable (COLS ! i) then Some (COLS ! i) else None)"
  by (simp add: listeners_def)

lemma sortable_key: "i < length COLS \<Longrightarrow> sortable (COLS ! i) \<Longrightarrow> key (COLS ! i) \<in> sortable_keys"
  unfolding sortable_keys_def by (metis (mono_tags, lifting) image_eqI mem_Collect_eq nth_mem)

lemma key_cap_sortable: "key_cap \<in> sortable_keys"
  using sortable_key[of 4] by (simp add: COLS_def)

lemma key_rank_not_sortable: "key_rank \<notin> sortable_keys"
  by (auto simp add: sortable_keys_def COLS_def key_defs)

lemma header_click_sort:
  "sortKey (fst (header_click h c st)) = key c"
  "sortAsc (fst (header_click h c st)) = (if sortKey st = key c then \<not> sortAsc st else key c \<noteq> key_cap)"
  by (simp_all add: header_click_def render_frame)

lemma header_click_frame:
  "allRows (fst (header_click h c st)) = allRows st"
  "map th_listener (kw_thead (fst (header_click h c st))) = map th_listener (kw_thead st)"
  "kw_sector_options (fst (header_click h c st)) = kw_sector_options st"
  "kw_table_wrap_display (fst (header_click h c st)) = kw_table_wrap_display st"
  "fetches (fst (header_click h c st)) = fetches st"
  "pending (fst (header_click h c st)) = pending st"
  by (simp_all add: header_click_def render_frame render_listeners)

lemma reset_frame:
  "allRows (fst (reset h st)) = allRows st"
  "sortKey (fst (reset h st)) = sortKey st"
  "sortAsc (fst (reset h st)) = sortAsc st"
  "map th_listener (kw_thead (fst (reset h st))) = map th_listener (kw_thead st)"
  "kw_sector_options (fst (reset h st)) = kw_sector_options st"
  "kw_table_wrap_display (fst (reset h st)) = kw_table_wrap_display st"
  "fetches (fst (reset h st)) = fetches st"
  "pending (fst (reset h st)) = pending st"
  by (simp_all add: reset_def render_frame render_listeners)

text \<open>
  In every state the widget can be in, the header row is empty or holds the nine cells of
  \<open>buildHeader\<close> with their listeners, and the sort key is the key of a sortable column.
\<close>

lemma reachable_invariant:
  assumes "reachable h st"
  shows "(kw_thead st = [] \<or> (map th_listener (kw_thead st) = listeners \<and> \<not> pending st))
         \<and> sortKey st \<in> sortable_keys"
  using assms
proof (induction rule: reachable.induct)
  case (reach_boot page)
  then show ?case by (simp add: boot_def key_cap_sortable)
next
  case (reach_step st ev)
  note ih = reach_step.IH
  show ?case
  proof (cases ev)
    case (Input c v)
    have "map th_listener (kw_thead (step h st ev)) = map th_listener (kw_thead st)"
      by (simp add: Input render_listeners set_control_frame)
    moreover have "pending (step h st ev) = pending st" "sortKey (step h st ev) = sortKey st"
      by (simp_all add: Input render_frame set_control_frame)
    ultimately show ?thesis using ih by auto
  next
    case Reset
    have "map th_listener (kw_thead (step h st ev)) = map th_listener (kw_thead st)"
      "pending (step h st ev) = pending st" "sortKey (step h st ev) = sortKey st"
      by (simp_all add: Reset reset_frame)
    then show ?thesis using ih by auto
  next
    case (Click i)
    show ?thesis
    proof (cases "i < length (kw_thead st)")
      case False
      then show ?thesis using ih by (simp add: Click)
    next
      case True
      then have ne: "kw_thead st \<noteq> []" by auto
      then have l: "map th_listener (kw_thead st) = listeners" and p: "\<not> pending st"
        using ih by auto
      have il: "i < length COLS" using True l length_listeners by (metis length_map)
      have li: "th_listener (kw_thead st ! i) = listeners ! i"
        using True l by (metis nth_map)
      show ?thesis
      proof (cases "sortable (COLS ! i)")
        case False
        then have "step h st ev = st" using True li il by (simp add: Click listeners_nth)
        then show ?thesis using ih by simp
      next
        case s: True
        then have e: "step h st ev = fst (header_click h (COLS ! i) st)"
          using True li il by (simp add: Click listeners_nth)
        show ?thesis unfolding e using l p sortable_key[OF il s]
          by (simp add: header_click_sort header_click_frame)
      qed
    qed
  next
    case (Loaded out)
    show ?thesis
    proof (cases "pending st")
      case False
      then show ?thesis using ih by (simp add: Loaded)
    next
      case True
      then have t: "kw_thead st = []" using ih by auto
      have e: "step h st ev = (init h st out)\<lparr>pending := False\<rparr>" using True by (simp add: Loaded)
      show ?thesis
      proof (cases "load_failure out")
        case True
        then show ?thesis using ih t unfolding e by (simp add: init_failed show_error_frame)
      next
        case False
        then obtain status f where o: "out = Response status (Parsed f)" and ok: "response_ok status"
          by (cases out rule: load_failure.cases) auto
        from init_loaded[OF ok, of f st h] obtain st6 x where
          s6: "sortKey st6 = sortKey st" "kw_thead st6 = kw_thead st @ map (make_th (sortKey st)) COLS"
          and i: "init h st out = fst (render h st6) \<or> init h st out = show_error (fst (render h st6)) x"
          unfolding o by blast
        have "map th_listener (kw_thead (init h st out)) = listeners \<and> sortKey (init h st out) = sortKey st"
          using i s6 t by (auto simp add: show_error_frame render_listeners render_frame listeners_make_th')
        then show ?thesis using ih unfolding e by simp
      qed
    qed
  qed
qed

lemma toLowerCase_Nil: "toLowerCase h [] = []"
  by (simp add: toLowerCase_def)

lemma parseFloat_Nil: "parseFloat [] = NaN"
  by (simp add: parseFloat_def trim_start_def)

lemma trim_Nil: "trim [] = []"
  by (simp add: trim_def)

lemma keep_unset: "keep h [] [] NaN NaN NaN NaN NaN r"
  by (simp add: keep_def)

lemma length_sort_rows: "length (sort_rows h k asc rows) = length rows"
  by (simp add: sort_rows_def length_js_sort)

lemma mset_sort_rows: "mset (sort_rows h k asc rows) = mset rows"
  by (simp add: sort_rows_def mset_js_sort)

lemma filtered_cleared:
  assumes "kw_sector st = []" "kw_search st = []" "kw_per_min st = []" "kw_per_max st = []"
    "kw_pbr_min st = []" "kw_pbr_max st = []" "kw_cap_min st = []"
  shows "filtered h st = allRows st"
  by (simp add: filtered_def assms trim_Nil toLowerCase_Nil parseFloat_Nil keep_unset)

lemma reachable_thead_length:
  assumes "reachable h st"
  shows "length (kw_thead st) \<le> length COLS"
proof -
  from reachable_invariant[OF assms]
  have "kw_thead st = [] \<or> map th_listener (kw_thead st) = listeners" by blast
  then show ?thesis
  proof
    assume "kw_thead st = []" then show ?thesis by simp
  next
    assume "map th_listener (kw_thead st) = listeners"
    then have "length (kw_thead st) = length listeners" by (metis length_map)
    then show ?thesis by (simp add: length_listeners)
  qed
qed

lemma step_quiet:
  assumes "\<not> pending st"
  shows "\<not> pending (step h st ev)"
    and "fetches (step h st ev) = fetches st"
    and "kw_table_wrap_display (step h st ev) = kw_table_wrap_display st"
    and "kw_sector_options (step h st ev) = kw_sector_options st"
    and "allRows (step h st ev) = allRows st"
  using assms
  by (cases ev; simp add: render_frame set_control_frame reset_frame header_click_frame
        split: option.splits)+

lemma run_quiet:
  assumes "\<not> pending st"
  shows "\<not> pending (run h st evs) \<and> fetches (run h st evs) = fetches st
     \<and> kw_table_wrap_display (run h st evs) = kw_table_wrap_display st
     \<and> kw_sector_options (run h st evs) = kw_sector_options st
     \<and> allRows (run h st evs) = allRows st"
  using assms
proof (induction evs arbitrary: st)
  case Nil
  then show ?case by (simp add: run_def)
next
  case (Cons ev evs)
  have "run h st (ev # evs) = run h (step h st ev) evs" by (simp add: run_def)
  then show ?case using Cons.IH[of "step h st ev"] step_quiet[OF Cons.prems, of h ev] by simp
qed

lemma step_loaded:
  assumes "pending st" and "response_ok status"
  shows "allRows (step h st (Loaded (Response status (Parsed f)))) = data f"
    and "sortKey (step h st (Loaded (Response status (Parsed f)))) = sortKey st"
    and "sortAsc (step h st (Loaded (Response status (Parsed f)))) = sortAsc st"
    and "length (kw_thead (step h st (Loaded (Response status (Parsed f)))))
           = length (kw_thead st) + length COLS"
    and "kw_sector_options (step h st (Loaded (Response status (Parsed f))))
           = kw_sector_options st @ sectors (data f)"
    and "\<not> pending (step h st (Loaded (Response status (Parsed f))))"
proof -
  from init_loaded[OF assms(2), of f st h] obtain st6 x where
    s6: "allRows st6 = data f" "sortKey st6 = sortKey st" "sortAsc st6 = sortAsc st"
      "kw_thead st6 = kw_thead st @ map (make_th (sortKey st)) COLS"
      "kw_sector_options st6 = kw_sector_options st @ sectors (data f)"
    and i: "init h st (Response status (Parsed f)) = fst (render h st6)
        \<or> init h st (Response status (Parsed f)) = show_error (fst (render h st6)) x"
    by blast
  have e: "step h st (Loaded (Response status (Parsed f)))
      = (init h st (Response status (Parsed f)))\<lparr>pending := False\<rparr>"
    using assms(1) by simp
  show "allRows (step h st (Loaded (Response status (Parsed f)))) = data f"
    unfolding e using i s6 by (auto simp add: show_error_frame render_frame)
  show "sortKey (step h st (Loaded (Response status (Parsed f)))) = sortKey st"
    unfolding e using i s6 by (auto simp add: show_error_frame render_frame)
  show "sortAsc (step h st (Loaded (Response status (Parsed f)))) = sortAsc st"
    unfolding e using i s6 by (auto simp add: show_error_frame render_frame)
  show "length (kw_thead (step h st (Loaded (Response status (Parsed f)))))
           = length (kw_thead st) + length COLS"
    unfolding e using i s6 by (auto simp add: show_error_frame render_thead_length)
  show "kw_sector_options (step h st (Loaded (Response status (Parsed f))))
           = kw_sector_options st @ sectors (data f)"
    unfolding e using i s6 by (auto simp add: show_error_frame render_frame)
  show "\<not> pending (step h st (Loaded (Response status (Parsed f))))"
    unfolding e by simp
qed

lemma reachable_demo_loaded: "reachable demo_host demo_loaded"
  unfolding demo_loaded_def by (intro reach_step reach_boot) (simp add: demo_page_def)

lemma response_ok_200: "response_ok 200"
  by (simp add: response_ok_def)

lemma pending_boot: "pending (boot page)"
  by (simp add: boot_def)

lemma demo_loaded_facts:
  "allRows demo_loaded = [row1, row2, row3]"
  "sortKey demo_loaded = key_cap"
  "sortAsc demo_loaded = False"
  "length (kw_thead demo_loaded) = 9"
  "kw_sector_options demo_loaded = [[]] @ sectors [row1, row2, row3]"
proof -
  note sl = step_loaded[OF pending_boot response_ok_200, of demo_host demo_page demo_fund]
  have "allRows demo_loaded = data demo_fund" unfolding demo_loaded_def by (rule sl(1))
  then show "allRows demo_loaded = [row1, row2, row3]" by (simp add: demo_fund_def)
  have "sortKey demo_loaded = sortKey (boot demo_page)" unfolding demo_loaded_def by (rule sl(2))
  then show "sortKey demo_loaded = key_cap" by (simp add: boot_def)
  have "sortAsc demo_loaded = sortAsc (boot demo_page)" unfolding demo_loaded_def by (rule sl(3))
  then show "sortAsc demo_loaded = False" by (simp add: boot_def)
  have "length (kw_thead demo_loaded) = length (kw_thead (boot demo_page)) + length COLS"
    unfolding demo_loaded_def by (rule sl(4))
  then show "length (kw_thead demo_loaded) = 9" by (simp add: boot_def demo_page_def COLS_def)
  have "kw_sector_options demo_loaded = kw_sector_options (boot demo_page) @ sectors (data demo_fund)"
    unfolding demo_loaded_def by (rule sl(5))
  then show "kw_sector_options demo_loaded = [[]] @ sectors [row1, row2, row3]"
    by (simp add: boot_def demo_page_def demo_fund_def)
qed

text \<open>
  C9. In every state the widget can be in (at the start and after any sequence of header
  clicks, changes of the filter controls, resets and the arrival of the data), the sort
  key is the key of a sortable column of \<open>COLS\<close>; it is never the rank column \<open>#\<close>.
\<close>

theorem sort_key_is_sortable:
  assumes "reachable h st"
  shows "sortKey st \<in> sortable_keys \<and> sortKey st \<noteq> key_rank"
  using reachable_invariant[OF assms] key_rank_not_sortable by auto

theorem sort_key_is_sortable_witness:
  "reachable demo_host (step demo_host demo_loaded (Click 3))
   \<and> sortKey (step demo_host demo_loaded (Click 3)) \<in> sortable_keys
   \<and> sortKey (step demo_host demo_loaded (Click 3)) \<noteq> key_rank"
proof -
  have r: "reachable demo_host (step demo_host demo_loaded (Click 3))"
    by (rule reach_step[OF reachable_demo_loaded])
  show ?thesis using r sort_key_is_sortable[OF r] by blast
qed

text \<open>
  C5. On a page whose header has been built, a click on the header cell of a sortable
  column that is not the sort key makes it the sort key, descending for the market
  capitalisation column and ascending for every other column; a click on the cell of the
  sort key keeps the key and turns the direction around.
\<close>

theorem header_click_sets_sort:
  assumes "reachable h st" and "kw_thead st \<noteq> []" and "i < length COLS"
    and "sortable (COLS ! i)"
  shows "sortKey (step h st (Click i)) = key (COLS ! i)
     \<and> (sortKey st \<noteq> key (COLS ! i) \<longrightarrow>
          sortAsc (step h st (Click i)) = (key (COLS ! i) \<noteq> key_cap))
     \<and> (sortKey st = key (COLS ! i) \<longrightarrow> sortAsc (step h st (Click i)) = (\<not> sortAsc st))"
proof -
  have l: "map th_listener (kw_thead st) = listeners"
    using reachable_invariant[OF assms(1)] assms(2) by blast
  then have "length (kw_thead st) = length COLS" by (metis length_map length_listeners)
  then have i: "i < length (kw_thead st)" using assms(3) by simp
  then have "th_listener (kw_thead st ! i) = listeners ! i" using l by (metis nth_map)
  then have "th_listener (kw_thead st ! i) = Some (COLS ! i)"
    using assms(3,4) by (simp add: listeners_nth)
  then have "step h st (Click i) = fst (header_click h (COLS ! i) st)" using i by simp
  then show ?thesis by (simp add: header_click_sort)
qed

theorem header_click_sets_sort_witness:
  "sortKey (step demo_host demo_loaded (Click 5)) = key_per
   \<and> sortAsc (step demo_host demo_loaded (Click 5))
   \<and> sortKey demo_loaded \<noteq> key_per"
proof -
  have t: "kw_thead demo_loaded \<noteq> []" using demo_loaded_facts(4) by auto
  have c: "(5::nat) < length COLS" "sortable (COLS ! 5)" "key (COLS ! 5) = key_per"
    by (simp_all add: COLS_def)
  have k: "sortKey demo_loaded \<noteq> key_per" by (simp add: demo_loaded_facts key_defs)
  show ?thesis
    using header_click_sets_sort[OF reachable_demo_loaded t c(1,2)] k
    by (simp add: c(3) key_defs del: step.simps)
qed

lemma reset_controls:
  "kw_sector (fst (reset h st)) = []" "kw_search (fst (reset h st)) = []"
  "kw_per_min (fst (reset h st)) = []" "kw_per_max (fst (reset h st)) = []"
  "kw_pbr_min (fst (reset h st)) = []" "kw_pbr_max (fst (reset h st)) = []"
  "kw_cap_min (fst (reset h st)) = []"
  by (simp_all add: reset_def render_frame)

lemma reset_shows_all:
  assumes "length (kw_thead st) \<le> length COLS"
  shows "length (kw_tbody (fst (reset h st))) = length (allRows st)"
    and "kw_count (fst (reset h st)) = digits (length (allRows st)) @ count_suffix"
    and "snd (reset h st) = None"
proof -
  define st0 where "st0 = st\<lparr>kw_sector := [], kw_search := [], kw_per_min := [],
      kw_per_max := [], kw_pbr_min := [], kw_pbr_max := [], kw_cap_min := []\<rparr>"
  have r: "reset h st = render h st0" by (simp add: reset_def st0_def)
  have t: "length (kw_thead st0) \<le> length COLS" using assms by (simp add: st0_def)
  have "filtered h st0 = allRows st0" by (rule filtered_cleared) (simp_all add: st0_def)
  then have "length (shown_rows h st0) = length (allRows st)"
    by (simp add: shown_rows_def length_sort_rows st0_def)
  then show "length (kw_tbody (fst (reset h st))) = length (allRows st)"
    and "kw_count (fst (reset h st)) = digits (length (allRows st)) @ count_suffix"
    and "snd (reset h st) = None"
    unfolding r using render_ok[OF t, of h] by simp_all
qed

text \<open>
  C3. In every state the widget can be in, a click on the reset button empties the
  sector control, the search control, the four bounds and the capitalisation minimum and
  runs \<open>render\<close>; afterwards the table holds as many rows as the data set, the count says
  so, and the sort key and the sort direction are what they were.
\<close>

theorem reset_shows_whole_dataset:
  assumes "reachable h st"
  shows "kw_sector (step h st Reset) = [] \<and> kw_search (step h st Reset) = []
     \<and> kw_per_min (step h st Reset) = [] \<and> kw_per_max (step h st Reset) = []
     \<and> kw_pbr_min (step h st Reset) = [] \<and> kw_pbr_max (step h st Reset) = []
     \<and> kw_cap_min (step h st Reset) = []
     \<and> length (kw_tbody (step h st Reset)) = length (allRows st)
     \<and> kw_count (step h st Reset) = digits (length (allRows st)) @ count_suffix
     \<and> allRows (step h st Reset) = allRows st
     \<and> sortKey (step h st Reset) = sortKey st
     \<and> sortAsc (step h st Reset) = sortAsc st"
  using reset_shows_all[OF reachable_thead_length[OF assms], of h]
  by (simp add: reset_controls reset_frame)

theorem reset_shows_whole_dataset_witness:
  "length (kw_tbody (step demo_host (step demo_host demo_loaded (Input Search (ascii ''nav''))) Reset)) = 3
   \<and> kw_search (step demo_host (step demo_host demo_loaded (Input Search (ascii ''nav''))) Reset) = []
   \<and> sortKey (step demo_host (step demo_host demo_loaded (Input Search (ascii ''nav''))) Reset) = key_cap"
proof -
  define st where "st = step demo_host demo_loaded (Input Search (ascii ''nav''))"
  have r: "reachable demo_host st"
    unfolding st_def by (rule reach_step[OF reachable_demo_loaded])
  have q: "\<not> pending demo_loaded"
    unfolding demo_loaded_def by (rule step_loaded(6)[OF pending_boot response_ok_200])
  have a: "allRows st = [row1, row2, row3]" "sortKey st = key_cap"
    unfolding st_def by (simp_all add: render_frame set_control_frame demo_loaded_facts)
  show ?thesis
    using reset_shows_whole_dataset[OF r] a unfolding st_def[symmetric]
    by (simp del: step.simps)
qed

text \<open>
  C4. When the request of \<open>init\<close> fails (the request is rejected, the response has a
  status outside 200 to 299, or the body is not JSON), the status region gets the class
  \<open>kw-error\<close> and the text of the error message with the reason inside, which for a bad
  status is \<open>HTTP error: \<close> followed by the status; the table region keeps the display
  it had, and no further request is sent, whatever the user does afterwards.
\<close>

theorem load_failure_reported:
  assumes "pending st" and "load_failure out"
  shows "kw_status_text (step h st (Loaded out)) = error_prefix @ failure_reason out @ [41]
     \<and> kw_status_class (step h st (Loaded out)) = ascii ''kw-error''
     \<and> kw_status_display (step h st (Loaded out)) = kw_status_display st
     \<and> kw_table_wrap_display (run h (step h st (Loaded out)) evs) = kw_table_wrap_display st
     \<and> fetches (run h (step h st (Loaded out)) evs) = fetches st"
proof -
  have e: "step h st (Loaded out) = (show_error st (Exn (failure_reason out)))\<lparr>pending := False\<rparr>"
    using assms by (simp add: init_failed)
  have q: "\<not> pending (step h st (Loaded out))" unfolding e by simp
  show ?thesis using run_quiet[OF q, of h evs] unfolding e by (simp add: show_error_def)
qed

theorem load_failure_reported_witness:
  "kw_status_text (step demo_host (boot demo_page) (Loaded (Response 500 (Malformed []))))
     = error_prefix @ ascii ''HTTP error: 500)''
   \<and> kw_table_wrap_display (run demo_host
        (step demo_host (boot demo_page) (Loaded (Response 500 (Malformed [])))) [Reset, Click 4])
     = ascii ''none''
   \<and> fetches (run demo_host
        (step demo_host (boot demo_page) (Loaded (Response 500 (Malformed [])))) [Reset, Click 4])
     = 1"
proof -
  have f: "load_failure (Response 500 (Malformed []))" by simp
  have d: "digits 500 = ascii ''500''" by (simp add: digits.simps ascii_def)
  have r: "failure_reason (Response 500 (Malformed [])) = ascii ''HTTP error: 500''"
    by (simp add: response_ok_def d) (simp add: ascii_def)
  have b: "kw_table_wrap_display (boot demo_page) = ascii ''none''" "fetches (boot demo_page) = 1"
    by (simp_all add: boot_def demo_page_def)
  show ?thesis
    using load_failure_reported[OF pending_boot f, of demo_host demo_page "[Reset, Click 4]"]
    unfolding r b by (simp add: ascii_def del: step.simps)
qed

subsection \<open>The filter\<close>

lemma not_lt_bound: "\<not> isNaN b \<Longrightarrow> (\<not> js_lt x b) = (isNaN x \<or> js_le b x)"
  by (cases x; cases b; simp add: js_le_def)

lemma not_gt_bound: "\<not> isNaN b \<Longrightarrow> (\<not> js_gt x b) = (isNaN x \<or> js_le x b)"
  by (cases x; cases b; simp add: js_le_def js_gt_def)

lemma not_lt_ge: "\<not> isNaN b \<Longrightarrow> (\<not> js_lt x b) = (isNaN x \<or> js_ge x b)"
  by (cases x; cases b; simp add: js_ge_def)

lemma if_chain:
  "(if a then False else if b then False else if c then False else if d then False
    else if e then False else if f then False else if g then False else True)
   = (\<not> a \<and> \<not> b \<and> \<not> c \<and> \<not> d \<and> \<not> e \<and> \<not> f \<and> \<not> g)"
  by simp

lemma keep_parts:
  "keep h (kw_sector st) (search_text h st) (parseFloat (kw_per_min st))
      (parseFloat (kw_per_max st)) (parseFloat (kw_pbr_min st)) (parseFloat (kw_pbr_max st))
      (cap_min st) r
   = (sector_ok st r \<and> name_ok h st r \<and> per_ok st r \<and> pbr_ok st r \<and> cap_ok st r)"
proof -
  have s: "(\<not> (kw_sector st \<noteq> [] \<and> r_sector r \<noteq> Val (kw_sector st))) = sector_ok st r"
    by (simp add: sector_ok_def)
  have n: "(\<not> (search_text h st \<noteq> []
              \<and> indexOf (toLowerCase h (r_name r)) (search_text h st) = - 1)) = name_ok h st r"
    by (simp add: name_ok_def indexOf_found)
  show ?thesis
    unfolding keep_def if_chain s n
    by (simp add: per_ok_def pbr_ok_def cap_ok_def bound_set_def conj_assoc)
qed

lemma per_ok_bounds:
  "per_ok st r =
     ((bound_set (kw_per_min st) \<longrightarrow> isNaN (r_per r) \<or> js_le (parseFloat (kw_per_min st)) (r_per r))
      \<and> (bound_set (kw_per_max st) \<longrightarrow> isNaN (r_per r) \<or> js_le (r_per r) (parseFloat (kw_per_max st))))"
  unfolding per_ok_def bound_set_def
  using not_lt_bound[of "parseFloat (kw_per_min st)" "r_per r"]
    not_gt_bound[of "parseFloat (kw_per_max st)" "r_per r"]
  by blast

lemma pbr_ok_bounds:
  "pbr_ok st r =
     ((bound_set (kw_pbr_min st) \<longrightarrow> isNaN (r_pbr r) \<or> js_le (parseFloat (kw_pbr_min st)) (r_pbr r))
      \<and> (bound_set (kw_pbr_max st) \<longrightarrow> isNaN (r_pbr r) \<or> js_le (r_pbr r) (parseFloat (kw_pbr_max st))))"
  unfolding pbr_ok_def bound_set_def
  using not_lt_bound[of "parseFloat (kw_pbr_min st)" "r_pbr r"]
    not_gt_bound[of "parseFloat (kw_pbr_max st)" "r_pbr r"]
  by blast

lemma cap_ok_bound:
  "cap_ok st r = (\<not> isNaN (cap_min st) \<longrightarrow> isNaN (r_cap r) \<or> js_ge (r_cap r) (cap_min st))"
  unfolding cap_ok_def using not_lt_ge[of "cap_min st" "r_cap r"] by blast

lemma passes_parts:
  "passes h st r = (sector_ok st r \<and> name_ok h st r \<and> per_ok st r \<and> pbr_ok st r \<and> cap_ok st r)"
  unfolding passes_def per_ok_bounds pbr_ok_bounds cap_ok_bound sector_ok_def name_ok_def
  by blast

lemma filtered_parts:
  "filtered h st = filter (\<lambda>r. sector_ok st r \<and> name_ok h st r \<and> per_ok st r \<and> pbr_ok st r
      \<and> cap_ok st r) (allRows st)"
proof -
  have "keep h (kw_sector st) (search_text h st) (parseFloat (kw_per_min st))
      (parseFloat (kw_per_max st)) (parseFloat (kw_pbr_min st)) (parseFloat (kw_pbr_max st))
      (cap_min st) = (\<lambda>r. sector_ok st r \<and> name_ok h st r \<and> per_ok st r \<and> pbr_ok st r
      \<and> cap_ok st r)"
    by (rule ext) (rule keep_parts)
  then show ?thesis by (simp add: filtered_def Let_def search_text_def cap_min_def)
qed

lemma filtered_passes: "filtered h st = filter (passes h st) (allRows st)"
proof -
  have "passes h st = (\<lambda>r. sector_ok st r \<and> name_ok h st r \<and> per_ok st r \<and> pbr_ok st r
      \<and> cap_ok st r)"
    by (rule ext) (rule passes_parts)
  then show ?thesis by (simp add: filtered_parts)
qed

lemma set_shown_rows: "set (shown_rows h st) = set (filtered h st)"
  using mset_sort_rows[of h "sortKey st" "sortAsc st" "filtered h st"]
  unfolding shown_rows_def by (rule mset_eq_setD)

lemma render_rows_each:
  "map Inr (fst (render_rows h i rows)) = map (\<lambda>(j, r). render_row h j r) (enumerate i rows)"
proof (induction rows arbitrary: i)
  case Nil
  show ?case by simp
next
  case (Cons r rows)
  obtain t where t: "render_row h i r = Inr t" using render_row_returns by blast
  show ?case using Cons[of "Suc i"] by (simp add: t case_prod_unfold Let_def)
qed

lemma render_tbody:
  assumes "length (kw_thead st) \<le> length COLS"
  shows "kw_tbody (fst (render h st)) = fst (render_rows h 0 (shown_rows h st))"
  using reflow_ok[OF assms, of h "sortKey st" "sortAsc st"]
  by (simp add: render_def Let_def case_prod_unfold split: option.splits)

subsection \<open>The page of the examples\<close>

lemma step_loaded_controls:
  assumes "pending st" and "response_ok status"
  shows "kw_sector (step h st (Loaded (Response status (Parsed f)))) = kw_sector st"
    and "kw_search (step h st (Loaded (Response status (Parsed f)))) = kw_search st"
    and "kw_per_min (step h st (Loaded (Response status (Parsed f)))) = kw_per_min st"
    and "kw_per_max (step h st (Loaded (Response status (Parsed f)))) = kw_per_max st"
    and "kw_pbr_min (step h st (Loaded (Response status (Parsed f)))) = kw_pbr_min st"
    and "kw_pbr_max (step h st (Loaded (Response status (Parsed f)))) = kw_pbr_max st"
    and "kw_cap_min (step h st (Loaded (Response status (Parsed f)))) = kw_cap_min st"
proof -
  from init_loaded[OF assms(2), of f st h] obtain st6 x where
    s6: "kw_sector st6 = kw_sector st" "kw_search st6 = kw_search st"
      "kw_per_min st6 = kw_per_min st" "kw_per_max st6 = kw_per_max st"
      "kw_pbr_min st6 = kw_pbr_min st" "kw_pbr_max st6 = kw_pbr_max st"
      "kw_cap_min st6 = kw_cap_min st"
    and i: "init h st (Response status (Parsed f)) = fst (render h st6)
        \<or> init h st (Response status (Parsed f)) = show_error (fst (render h st6)) x"
    by blast
  have e: "step h st (Loaded (Response status (Parsed f)))
      = (init h st (Response status (Parsed f)))\<lparr>pending := False\<rparr>"
    using assms(1) by simp
  show "kw_sector (step h st (Loaded (Response status (Parsed f)))) = kw_sector st"
    unfolding e using i s6 by (auto simp add: show_error_def render_frame)
  show "kw_search (step h st (Loaded (Response status (Parsed f)))) = kw_search st"
    unfolding e using i s6 by (auto simp add: show_error_def render_frame)
  show "kw_per_min (step h st (Loaded (Response status (Parsed f)))) = kw_per_min st"
    unfolding e using i s6 by (auto simp add: show_error_def render_frame)
  show "kw_per_max (step h st (Loaded (Response status (Parsed f)))) = kw_per_max st"
    unfolding e using i s6 by (auto simp add: show_error_def render_frame)
  show "kw_pbr_min (step h st (Loaded (Response status (Parsed f)))) = kw_pbr_min st"
    unfolding e using i s6 by (auto simp add: show_error_def render_frame)
  show "kw_pbr_max (step h st (Loaded (Response status (Parsed f)))) = kw_pbr_max st"
    unfolding e using i s6 by (auto simp add: show_error_def render_frame)
  show "kw_cap_min (step h st (Loaded (Response status (Parsed f)))) = kw_cap_min st"
    unfolding e using i s6 by (auto simp add: show_error_def render_frame)
qed

lemma demo_loaded_controls:
  "kw_sector demo_loaded = []" "kw_search demo_loaded = []"
  "kw_per_min demo_loaded = []" "kw_per_max demo_loaded = []"
  "kw_pbr_min demo_loaded = []" "kw_pbr_max demo_loaded = []"
  "kw_cap_min demo_loaded = []"
  unfolding demo_loaded_def step_loaded_controls[OF pending_boot response_ok_200]
  by (simp_all add: boot_def demo_page_def)

lemma demo_with_fields:
  "allRows (demo_with c v) = [row1, row2, row3]"
  "kw_sector (demo_with c v) = (if c = Sector then v else [])"
  "kw_search (demo_with c v) = (if c = Search then v else [])"
  "kw_per_min (demo_with c v) = (if c = PerMin then v else [])"
  "kw_per_max (demo_with c v) = (if c = PerMax then v else [])"
  "kw_pbr_min (demo_with c v) = (if c = PbrMin then v else [])"
  "kw_pbr_max (demo_with c v) = (if c = PbrMax then v else [])"
  "kw_cap_min (demo_with c v) = (if c = CapMin then v else [])"
  "sortKey (demo_with c v) = key_cap"
  "sortAsc (demo_with c v) = False"
  by (cases c; simp add: demo_with_def render_frame demo_loaded_controls demo_loaded_facts)+

lemma reachable_demo_with: "reachable demo_host (demo_with c v)"
  unfolding demo_with_def by (rule reach_step[OF reachable_demo_loaded])

lemma rnd_small_int: "\<bar>n\<bar> \<le> 2 ^ 53 \<Longrightarrow> rnd (of_int n) = Fin (of_int n)"
  using is_double_int[of n] by (simp add: is_double_def)

lemma rnd_examples: "rnd 2 = Fin 2" "rnd 5 = Fin 5" "rnd 20 = Fin 20"
  using rnd_small_int[of 2] rnd_small_int[of 5] rnd_small_int[of 20] by simp_all

lemma parseFloat_examples:
  "parseFloat (ascii ''2'') = Fin 2"
  "parseFloat (ascii ''5'') = Fin 5"
  "parseFloat (ascii ''20'') = Fin 20"
  "parseFloat [32] = NaN"
  by (simp_all add: parseFloat_def trim_start_def is_ws_def ascii_def parse_unsigned_def
      starts_with_def is_digit_def digits_value_def exponent_part_def rnd_examples)

lemma cap_min_unset: "kw_cap_min st = [] \<Longrightarrow> cap_min st = NaN"
  by (simp add: cap_min_def parseFloat_Nil)

lemma row_fields:
  "r_name row1 = ascii ''Samsung''" "r_per row1 = Fin 12" "r_pbr row1 = Fin 1"
  "r_name row2 = ascii ''SK hynix''" "r_per row2 = NaN" "r_pbr row2 = Fin 1"
  "r_name row3 = ascii ''NAVER''" "r_per row3 = Fin 30" "r_pbr row3 = Fin 2"
  by (simp_all add: row1_def row2_def row3_def)

lemma in_filtered:
  "r \<in> set (filtered h st) \<longleftrightarrow>
     r \<in> set (allRows st) \<and> sector_ok st r \<and> name_ok h st r \<and> per_ok st r \<and> pbr_ok st r
       \<and> cap_ok st r"
  by (simp add: filtered_parts)


lemma lower_demo: "s \<noteq> [] \<Longrightarrow> toLowerCase demo_host s = lower_ascii s"
  by (simp add: toLowerCase_def demo_host_def)

text \<open>
  C1. As the specification words it, the claim fails twice. With a single blank in the
  search control the script shows the row named "Samsung", whose name does not contain a
  blank: the script trims the search text. With 5 as the PER minimum it shows the row
  whose PER is \<open>NaN\<close>, which is not within the bounds.
\<close>

theorem filter_as_stated_counterexample:
  "row1 \<in> set (shown_rows demo_host (demo_with Search [32]))
   \<and> \<not> passes_as_stated demo_host (demo_with Search [32]) row1
   \<and> row2 \<in> set (shown_rows demo_host (demo_with PerMin (ascii ''5'')))
   \<and> \<not> passes_as_stated demo_host (demo_with PerMin (ascii ''5'')) row2"
proof -
  have t: "trim [32] = []" by (simp add: trim_def is_ws_def)
  have a: "row1 \<in> set (shown_rows demo_host (demo_with Search [32]))"
    unfolding set_shown_rows in_filtered
    by (simp add: demo_with_fields sector_ok_def name_ok_def search_text_def t toLowerCase_Nil
        per_ok_def pbr_ok_def cap_ok_def bound_set_def parseFloat_Nil cap_min_unset)
  have "indexOf (lower_ascii (ascii ''Samsung'')) [32] = - 1"
    by (simp add: lower_ascii_def ascii_def indexOf_def starts_with_def)
  then have "\<not> occurs_in [32] (lower_ascii (ascii ''Samsung''))" by (simp add: indexOf_found)
  then have b: "\<not> passes_as_stated demo_host (demo_with Search [32]) row1"
    by (simp add: passes_as_stated_def demo_with_fields row_fields lower_demo ascii_def
        lower_ascii_def)
  have c: "row2 \<in> set (shown_rows demo_host (demo_with PerMin (ascii ''5'')))"
    unfolding set_shown_rows in_filtered
    by (simp add: demo_with_fields sector_ok_def name_ok_def search_text_def trim_Nil
        toLowerCase_Nil per_ok_def pbr_ok_def cap_ok_def bound_set_def parseFloat_Nil
        cap_min_unset row_fields js_gt_def)
  have d: "\<not> passes_as_stated demo_host (demo_with PerMin (ascii ''5'')) row2"
    by (simp add: passes_as_stated_def demo_with_fields row_fields bound_set_def
        parseFloat_examples js_le_def)
  show ?thesis using a b c d by blast
qed

text \<open>
  C1, as the script has it. The rows in the table body are, one body row for each, the
  rows of the data set that pass every constraint that is set: the sector equal to the
  selected one; the search text, trimmed and lower-cased, occurring in the lower-cased
  name when it is not empty; PER not below the minimum and not above the maximum, PBR
  likewise, each bound counting only when \<open>parseFloat\<close> finds a number in its control; the
  capitalisation not below the minimum, which is the number in its control times 10000. A
  value that is \<open>NaN\<close> is below no bound and above none, so it passes.
\<close>

theorem shown_rows_pass_filter:
  assumes "length (kw_thead st) \<le> length COLS"
  shows "mset (shown_rows h st) = filter_mset (passes h st) (mset (allRows st))
     \<and> map Inr (kw_tbody (fst (render h st)))
         = map (\<lambda>(j, r). render_row h j r) (enumerate 0 (shown_rows h st))"
proof -
  have "mset (shown_rows h st) = mset (filtered h st)"
    by (simp add: shown_rows_def mset_sort_rows)
  then have "mset (shown_rows h st) = filter_mset (passes h st) (mset (allRows st))"
    by (simp add: filtered_passes)
  then show ?thesis by (simp add: render_tbody[OF assms] render_rows_each)
qed

theorem shown_rows_pass_filter_witness:
  "length (kw_thead (demo_with Search (ascii '' NAV ''))) \<le> length COLS
   \<and> row3 \<in> set (shown_rows demo_host (demo_with Search (ascii '' NAV '')))
   \<and> row1 \<notin> set (shown_rows demo_host (demo_with Search (ascii '' NAV '')))"
proof -
  define st where "st = demo_with Search (ascii '' NAV '')"
  have l: "length (kw_thead st) \<le> length COLS"
    unfolding st_def by (rule reachable_thead_length[OF reachable_demo_with])
  have "mset (shown_rows demo_host st) = filter_mset (passes demo_host st) (mset (allRows st))"
    using shown_rows_pass_filter[OF l, of demo_host] by blast
  then have "set (shown_rows demo_host st) = set_mset (filter_mset (passes demo_host st) (mset (allRows st)))"
    by (metis set_mset_mset)
  then have m: "\<And>r. r \<in> set (shown_rows demo_host st) \<longleftrightarrow> r \<in> set (allRows st) \<and> passes demo_host st r"
    by simp
  have s: "search_text demo_host st = ascii ''nav''"
    by (simp add: search_text_def st_def demo_with_fields trim_def is_ws_def ascii_def
        toLowerCase_def demo_host_def lower_ascii_def)
  have i3: "indexOf (lower_ascii (ascii ''NAVER'')) (ascii ''nav'') \<noteq> - 1"
    by (simp add: lower_ascii_def ascii_def indexOf_def starts_with_def)
  have i1: "indexOf (lower_ascii (ascii ''Samsung'')) (ascii ''nav'') = - 1"
    by (simp add: lower_ascii_def ascii_def indexOf_def starts_with_def)
  have o3: "occurs_in (ascii ''nav'') (lower_ascii (ascii ''NAVER''))"
    using i3 by (simp add: indexOf_found)
  have o1: "\<not> occurs_in (ascii ''nav'') (lower_ascii (ascii ''Samsung''))"
    using i1 by (simp add: indexOf_found)
  have ld: "toLowerCase demo_host (ascii ''NAVER'') = lower_ascii (ascii ''NAVER'')"
    "toLowerCase demo_host (ascii ''Samsung'') = lower_ascii (ascii ''Samsung'')"
    by (simp_all add: toLowerCase_def demo_host_def ascii_def)
  have ne: "ascii ''nav'' \<noteq> []" by (simp add: ascii_def)
  have n3: "name_ok demo_host st row3"
    using o3 by (simp add: name_ok_def s row_fields ld)
  have n1: "\<not> name_ok demo_host st row1"
    using o1 ne by (simp add: name_ok_def s row_fields ld)
  have p3: "passes demo_host st row3"
    unfolding passes_parts using n3
    by (simp add: st_def demo_with_fields sector_ok_def per_ok_def pbr_ok_def cap_ok_def
        bound_set_def parseFloat_Nil cap_min_unset)
  have p1: "\<not> passes demo_host st row1" unfolding passes_parts using n1 by simp
  have "allRows st = [row1, row2, row3]" by (simp add: st_def demo_with_fields)
  then show ?thesis using l m p3 p1 unfolding st_def[symmetric] by simp
qed




subsection \<open>Numbers as text\<close>






















subsection \<open>The sector list\<close>

lemma sortCompare_pos: "js_lt (Fin 0) (sortCompare c a b) = js_lt (Fin 0) (c a b)"
  by (cases "c a b") (simp_all add: sortCompare_def)

lemma default_compare_pos: "js_lt (Fin 0) (sortCompare default_compare a b) = str_lt b a"
  using str_lt_asym[of a b] by (auto simp add: sortCompare_pos default_compare_def)

lemma sorted_default:
  "sorted_wrt (\<lambda>a b. \<not> str_lt b a) (js_sort default_compare xs)"
proof (rule sorted_js_sort[where S = UNIV])
  show "\<forall>a b. (\<not> str_lt b a) = (\<not> js_lt (Fin 0) (sortCompare default_compare a b))"
    by (simp add: default_compare_pos)
  show "\<forall>a \<in> UNIV. \<forall>b \<in> UNIV. \<not> str_lt b a \<or> \<not> str_lt a b"
    using str_lt_asym by blast
  show "\<forall>a \<in> UNIV. \<forall>b \<in> UNIV. \<forall>d \<in> UNIV. \<not> str_lt b a \<longrightarrow> \<not> str_lt d b \<longrightarrow> \<not> str_lt d a"
  proof (intro ballI impI)
    fix a b d :: jsstring
    assume 1: "\<not> str_lt b a" and 2: "\<not> str_lt d b"
    show "\<not> str_lt d a"
    proof
      assume 3: "str_lt d a"
      from 1 str_lt_total[of a b] have "a = b \<or> str_lt a b" by blast
      then have "str_lt d b" using 3 str_lt_trans by blast
      with 2 show False by simp
    qed
  qed
  show "set xs \<subseteq> UNIV" by simp
qed

lemma sorted_wrt_distinct:
  "sorted_wrt P xs \<Longrightarrow> distinct xs \<Longrightarrow> sorted_wrt (\<lambda>a b. P a b \<and> a \<noteq> b) xs"
  by (induction xs) auto

lemma sorted_wrt_weaken:
  "sorted_wrt P xs \<Longrightarrow> (\<And>a b. P a b \<Longrightarrow> Q a b) \<Longrightarrow> sorted_wrt Q xs"
  by (induction xs) auto

lemma distinct_js_sort: "distinct (js_sort c xs) = distinct xs"
  by (rule mset_eq_imp_distinct_iff[OF mset_js_sort])

lemma set_values_props: "set (set_values xs) = set xs" "distinct (set_values xs)"
  by (simp_all add: set_values_def)

lemma sector_texts:
  "set (map sector_text (filter truthy_sector (map r_sector rows))) = sector_set rows"
proof (rule set_eqI)
  fix s
  show "s \<in> set (map sector_text (filter truthy_sector (map r_sector rows))) \<longleftrightarrow>
      s \<in> sector_set rows"
  proof
    assume "s \<in> set (map sector_text (filter truthy_sector (map r_sector rows)))"
    then obtain r where r: "r \<in> set rows" "truthy_sector (r_sector r)" "s = sector_text (r_sector r)"
      by auto
    then have "r_sector r = Val s \<and> s \<noteq> []" by (cases "r_sector r") simp_all
    then show "s \<in> sector_set rows" using r(1) unfolding sector_set_def by blast
  next
    assume "s \<in> sector_set rows"
    then obtain r where r: "r \<in> set rows" "r_sector r = Val s" "s \<noteq> []"
      unfolding sector_set_def by blast
    then have "truthy_sector (r_sector r)" "sector_text (r_sector r) = s" by simp_all
    then show "s \<in> set (map sector_text (filter truthy_sector (map r_sector rows)))"
      using r(1) by force
  qed
qed

lemma sectors_props:
  "set (sectors rows) = sector_set rows" "distinct (sectors rows)"
  "sorted_wrt str_lt (sectors rows)"
proof -
  show s: "set (sectors rows) = sector_set rows"
    using sector_texts[of rows] by (simp add: sectors_def set_js_sort set_values_props)
  show d: "distinct (sectors rows)"
    by (simp add: sectors_def distinct_js_sort set_values_props)
  have "sorted_wrt (\<lambda>a b. \<not> str_lt b a) (sectors rows)"
    unfolding sectors_def by (rule sorted_default)
  then have "sorted_wrt (\<lambda>a b. \<not> str_lt b a \<and> a \<noteq> b) (sectors rows)"
    using d by (rule sorted_wrt_distinct)
  then show "sorted_wrt str_lt (sectors rows)"
  proof (rule sorted_wrt_weaken)
    fix a b :: jsstring
    assume "\<not> str_lt b a \<and> a \<noteq> b"
    then show "str_lt a b" using str_lt_total[of a b] by blast
  qed
qed

text \<open>
  C6. As it is worded, the claim fails: the list is ordered by code units, not by a
  collation. With the sectors "tech", "Chips" and "bio" the list is "Chips", "bio",
  "tech", although a locale-aware comparison puts "bio" before "Chips".
\<close>

theorem sectors_order_counterexample:
  "sectors [row1, row2, row3] = [ascii ''Chips'', ascii ''bio'', ascii ''tech'']
   \<and> 0 < localeCompare_ko demo_host (ascii ''Chips'') (ascii ''bio'')"
  by (simp add: sectors_def set_values_def row1_def row2_def row3_def ascii_def js_sort_def
      sortCompare_def default_compare_def demo_host_def compare_folded_def lower_ascii_def)

text \<open>
  C6, as the script has it. When the data arrive, the sector control gets, after the
  options it had, one option for each sector of the data set that is a string and not
  empty, each once, in the order \<open><\<close> of the language on strings (by code units); no
  later event changes the options.
\<close>

theorem sector_options_after_load:
  assumes "pending st" and "response_ok status"
  shows "kw_sector_options (step h st (Loaded (Response status (Parsed f))))
           = kw_sector_options st @ sectors (data f)
     \<and> set (sectors (data f)) = sector_set (data f)
     \<and> distinct (sectors (data f))
     \<and> sorted_wrt str_lt (sectors (data f))
     \<and> kw_sector_options (run h (step h st (Loaded (Response status (Parsed f)))) evs)
           = kw_sector_options st @ sectors (data f)"
  using step_loaded(5,6)[OF assms, of h f] sectors_props[of "data f"]
    run_quiet[of "step h st (Loaded (Response status (Parsed f)))" h evs]
  by simp

theorem sector_options_after_load_witness:
  "kw_sector_options demo_loaded = [[], ascii ''Chips'', ascii ''bio'', ascii ''tech'']
   \<and> kw_sector_options (run demo_host demo_loaded [Input Sector (ascii ''bio''), Reset])
        = [[], ascii ''Chips'', ascii ''bio'', ascii ''tech'']
   \<and> sector_set (data demo_fund) = {ascii ''Chips'', ascii ''bio'', ascii ''tech''}"
proof -
  have s: "sectors (data demo_fund) = [ascii ''Chips'', ascii ''bio'', ascii ''tech'']"
    by (simp add: demo_fund_def sectors_def set_values_def row1_def row2_def row3_def ascii_def
        js_sort_def sortCompare_def default_compare_def)
  have o: "kw_sector_options (boot demo_page) = [[]]" by (simp add: boot_def demo_page_def)
  note t = sector_options_after_load[OF pending_boot response_ok_200,
      of demo_host demo_page demo_fund "[Input Sector (ascii ''bio''), Reset]"]
  have 1: "kw_sector_options demo_loaded = [[]] @ sectors (data demo_fund)"
    using t unfolding demo_loaded_def o by blast
  have 2: "kw_sector_options (run demo_host demo_loaded [Input Sector (ascii ''bio''), Reset])
      = [[]] @ sectors (data demo_fund)"
    using t unfolding demo_loaded_def o by blast
  have 3: "set (sectors (data demo_fund)) = sector_set (data demo_fund)" using t by blast
  show ?thesis using 1 2 3 unfolding s by auto
qed

subsection \<open>The order of the rows\<close>





























end
